theory Spec2Isabelle
  imports Complex_Main
begin

section \<open>Numeric values of the depth raster\<close>

text \<open>
  The cells of the depth array and the thresholds are floating-point numbers. The
  classifier only compares them, so a value is modelled as the real number it stands for,
  one of the two infinities, or NaN, with the IEEE comparisons: every comparison with NaN
  is false.
\<close>

datatype fl = Fin real | PInf | NInf | NaN

fun fl_lt :: "fl \<Rightarrow> fl \<Rightarrow> bool" where
  "fl_lt (Fin x) (Fin y) = (x < y)"
| "fl_lt (Fin x) PInf = True"
| "fl_lt NInf (Fin y) = True"
| "fl_lt NInf PInf = True"
| "fl_lt _ _ = False"

fun fl_le :: "fl \<Rightarrow> fl \<Rightarrow> bool" where
  "fl_le (Fin x) (Fin y) = (x \<le> y)"
| "fl_le (Fin x) PInf = True"
| "fl_le NInf (Fin y) = True"
| "fl_le NInf PInf = True"
| "fl_le PInf PInf = True"
| "fl_le NInf NInf = True"
| "fl_le _ _ = False"

fun fl_eq :: "fl \<Rightarrow> fl \<Rightarrow> bool" where
  "fl_eq (Fin x) (Fin y) = (x = y)"
| "fl_eq PInf PInf = True"
| "fl_eq NInf NInf = True"
| "fl_eq _ _ = False"

definition fl_gt :: "fl \<Rightarrow> fl \<Rightarrow> bool" where
  "fl_gt x y = fl_lt y x"

section \<open>Errors\<close>

datatype py_error = IndexError | ValueError string | OtherError string

section \<open>Arrays\<close>

text \<open>
  A two-dimensional array is a list of rows. \<open>zeros_like\<close>, the element-wise
  comparisons and the masked assignment \<open>arr[mask] = v\<close> keep the shape.
\<close>

type_synonym 'a grid = "'a list list"

definition zeros_like :: "'a grid \<Rightarrow> nat grid" where
  "zeros_like arr = map (map (\<lambda>_. 0)) arr"

definition mask_where :: "('a \<Rightarrow> bool) \<Rightarrow> 'a grid \<Rightarrow> bool grid" where
  "mask_where p arr = map (map p) arr"

definition assign_where :: "bool grid \<Rightarrow> nat \<Rightarrow> nat grid \<Rightarrow> nat grid" where
  "assign_where m v arr = map2 (map2 (\<lambda>b c. if b then v else c)) m arr"

definition np_sum :: "bool grid \<Rightarrow> nat" where
  "np_sum m = sum_list (map (\<lambda>row. length (filter id row)) m)"

section \<open>classify\_flood\_depth\<close>

definition default_thresholds :: "fl list" where
  "default_thresholds = [Fin (1/2), Fin 1, Fin 2, Fin 3]"

text \<open>
  A threshold is a Python float, a binary64 number. numpy compares an array with a Python
  scalar in the dtype of the array when that is a floating-point dtype: against a float32
  raster the threshold is first rounded to float32, against a float64 raster (and against
  an integer raster, which numpy compares in float64) it is taken as it is. \<open>to_dtype\<close>
  is this conversion of a threshold; it belongs to the depth array. The literal 0 of the
  source converts to itself in every dtype.

  The loop \<open>for i, threshold in enumerate(thresholds)\<close>: \<open>i\<close> is the index of the
  threshold at the head of the remaining list. In the \<open>else\<close> branch \<open>i\<close> is at least 1
  and below \<open>len(thresholds)\<close>, so \<open>thresholds[i-1]\<close> is in range.
\<close>

fun classify_loop ::
  "(fl \<Rightarrow> fl) \<Rightarrow> fl grid \<Rightarrow> fl list \<Rightarrow> nat \<Rightarrow> fl list \<Rightarrow> nat grid \<Rightarrow> nat grid" where
  "classify_loop to_dtype depth_array thresholds i [] classified = classified"
| "classify_loop to_dtype depth_array thresholds i (threshold # rest) classified =
     classify_loop to_dtype depth_array thresholds (Suc i) rest
       (if i = 0 then
          assign_where
            (mask_where (\<lambda>d. fl_gt d (Fin 0) \<and> fl_le d (to_dtype threshold)) depth_array)
            (i + 1) classified
        else
          assign_where
            (mask_where (\<lambda>d. fl_gt d (to_dtype (thresholds ! (i - 1))) \<and>
                              fl_le d (to_dtype threshold)) depth_array)
            (i + 1) classified)"

text \<open>
  \<open>thresholds[-1]\<close> raises IndexError on the empty list; the function then returns no
  array.
\<close>

definition classify_flood_depth ::
  "(fl \<Rightarrow> fl) \<Rightarrow> fl grid \<Rightarrow> fl list option \<Rightarrow> py_error + nat grid" where
  "classify_flood_depth to_dtype depth_array thresholds_arg =
     (let thresholds = (case thresholds_arg of None \<Rightarrow> default_thresholds | Some ts \<Rightarrow> ts);
          classified = zeros_like depth_array;
          classified = assign_where (mask_where (\<lambda>d. fl_eq d (Fin 0)) depth_array) 0 classified;
          classified = classify_loop to_dtype depth_array thresholds 0 thresholds classified
      in if thresholds = [] then Inl IndexError
         else Inr (assign_where (mask_where (\<lambda>d. fl_gt d (to_dtype (last thresholds))) depth_array)
                     (length thresholds + 1) classified))"

section \<open>The collaborators of the aggregator\<close>

text \<open>
  Reading the boundary file, opening the raster, reading a band and clipping the raster
  to a geometry are library calls. They are parameters of the model: each either returns
  its value or raises. The order of the calls is recorded in a trace of events.

  The pixel area and the areas are Python floats, binary64 numbers, modelled as the real
  numbers they stand for. Each arithmetic operation on them gives the exact result
  rounded to binary64; \<open>rnd\<close>, the rounding, is a parameter of the model (overflow to an
  infinity is not modelled). \<open>dtype\<close> is the conversion of a threshold to the dtype of
  the raster, which the clipped arrays share.
\<close>

datatype pyval = PyInt int | PyStr string | PyFloat real

datatype event = ReadFile string | RasterOpen string | RasterRead nat | MaskCall nat | RasterClose

record affine =
  tr_a :: real
  tr_e :: real

record 'g village =
  geometry :: 'g
  attributes :: "string \<rightharpoonup> pyval"

record 'g raster =
  dtype :: "fl \<Rightarrow> fl"
  read_band :: "nat \<Rightarrow> py_error + fl grid"
  transform :: affine
  crs :: string
  mask :: "'g list \<Rightarrow> py_error + (fl grid list \<times> affine)"

record 'g env =
  read_file :: "string \<Rightarrow> py_error + 'g village list"
  rasterio_open :: "string \<Rightarrow> py_error + 'g raster"

type_synonym pydict = "(string \<times> pyval) list"

text \<open>
  The product \<open>np.sum(...) * pixel_area\<close> of a numpy integer and a Python float: the
  integer is converted to binary64 and the product is rounded.
\<close>

definition int_mul_float :: "(real \<Rightarrow> real) \<Rightarrow> nat \<Rightarrow> real \<Rightarrow> real" where
  "int_mul_float rnd n x = rnd (rnd (real n) * x)"

text \<open>
  A rounding with relative error at most \<open>u\<close>. Rounding to the nearest binary64 number
  has relative error at most \<open>1 / 2 ^ 53\<close> on results in the normal range.
\<close>

definition rounds_within :: "(real \<Rightarrow> real) \<Rightarrow> real \<Rightarrow> bool" where
  "rounds_within rnd u = (\<forall>x. \<bar>rnd x - x\<bar> \<le> u * \<bar>x\<bar>)"

section \<open>Dictionaries and formatting\<close>

text \<open>
  A dictionary keeps its keys in insertion order; storing under a key it already has
  replaces the value and keeps the position.
\<close>

fun dict_set :: "string \<Rightarrow> 'v \<Rightarrow> (string \<times> 'v) list \<Rightarrow> (string \<times> 'v) list" where
  "dict_set k v [] = [(k, v)]"
| "dict_set k v ((k', v') # d) = (if k' = k then (k, v) # d else (k', v') # dict_set k v d)"

definition series_get :: "'g village \<Rightarrow> string \<Rightarrow> pyval \<Rightarrow> pyval" where
  "series_get v key dflt = (case attributes v key of None \<Rightarrow> dflt | Some x \<Rightarrow> x)"

definition digit_char :: "nat \<Rightarrow> char" where
  "digit_char n = ''0123456789'' ! n"

fun str_of_nat :: "nat \<Rightarrow> string" where
  "str_of_nat n = (if n < 10 then [digit_char n] else str_of_nat (n div 10) @ [digit_char (n mod 10)])"

section \<open>calculate\_flood\_area\_by\_village\<close>

text \<open>
  The unit dispatch. The superscript two of the first two suffixes is the code point
  0xB2; the message of the error quotes each unit with the code point 0x27.
\<close>

definition quoted :: "string \<Rightarrow> string" where
  "quoted s = [CHR 0x27] @ s @ [CHR 0x27]"

definition unit_error_message :: string where
  "unit_error_message =
     ''Unit must be one of: '' @ quoted ''m2'' @ '', '' @ quoted ''km2'' @ '', ''
       @ quoted ''hectare'' @ '', '' @ quoted ''rai''"

definition resolve_unit ::
  "(real \<Rightarrow> real) \<Rightarrow> real \<Rightarrow> string \<Rightarrow> py_error + (real \<times> string)" where
  "resolve_unit rnd pixel_area_m2 unit =
     (if unit = ''m2'' then Inr (pixel_area_m2, '' (m'' @ [CHR 0xB2] @ '')'')
      else if unit = ''km2'' then Inr (rnd (pixel_area_m2 / 1000000), '' (km'' @ [CHR 0xB2] @ '')'')
      else if unit = ''hectare'' then Inr (rnd (pixel_area_m2 / 10000), '' (hectares)'')
      else if unit = ''rai'' then Inr (rnd (pixel_area_m2 / 1600), '' (rai)'')
      else Inl (ValueError unit_error_message))"

text \<open>
  The loop that adds one field per threshold. \<open>str_of\<close> is the text Python's
  formatting gives a threshold; it is a parameter.
\<close>

fun add_threshold_fields ::
  "(real \<Rightarrow> real) \<Rightarrow> (fl \<Rightarrow> string) \<Rightarrow> fl list \<Rightarrow> string \<Rightarrow> real \<Rightarrow> nat grid \<Rightarrow> nat \<Rightarrow>
   fl list \<Rightarrow> pydict \<Rightarrow> pydict" where
  "add_threshold_fields rnd str_of thresholds unit_suffix pixel_area masked_classified i [] d = d"
| "add_threshold_fields rnd str_of thresholds unit_suffix pixel_area masked_classified i (threshold # rest) d =
     add_threshold_fields rnd str_of thresholds unit_suffix pixel_area masked_classified (Suc i) rest
       (dict_set
          (if i = 0 then ''0-'' @ str_of threshold @ '' m'' @ unit_suffix
           else str_of (thresholds ! (i - 1)) @ ''-'' @ str_of threshold @ ''m'' @ unit_suffix)
          (PyFloat (int_mul_float rnd (np_sum (mask_where (\<lambda>c. c = i + 1) masked_classified)) pixel_area))
          d)"

text \<open>
  The body of the loop over the villages, for the village at index \<open>idx\<close>. An error of
  the clip or of the classifier leaves the body: nothing in it is caught.
\<close>

definition village_result ::
  "(real \<Rightarrow> real) \<Rightarrow> (fl \<Rightarrow> string) \<Rightarrow> 'g raster \<Rightarrow> fl list \<Rightarrow> real \<Rightarrow> string \<Rightarrow> nat \<Rightarrow>
   'g village \<Rightarrow> py_error + pydict" where
  "village_result rnd str_of src thresholds pixel_area unit_suffix idx v =
     (case mask src [geometry v] of
        Inl err \<Rightarrow> Inl err
      | Inr (masked_flood, masked_transform) \<Rightarrow>
          (case masked_flood of
             [] \<Rightarrow> Inl IndexError
           | band # _ \<Rightarrow>
               (case classify_flood_depth (dtype src) band (Some thresholds) of
                  Inl err \<Rightarrow> Inl err
                | Inr masked_classified \<Rightarrow>
                    (let d = [];
                         d = dict_set ''village_id'' (series_get v ''ADM3_EN'' (PyInt (int idx))) d;
                         d = dict_set ''village_name''
                               (series_get v ''ADM3_TH'' (PyStr (''Village_'' @ str_of_nat idx))) d;
                         d = dict_set (''total_area'' @ unit_suffix)
                               (PyFloat (int_mul_float rnd (np_sum (mask_where (\<lambda>c. 0 \<le> c) masked_classified)) pixel_area)) d;
                         d = dict_set (''no_flood_area'' @ unit_suffix)
                               (PyFloat (int_mul_float rnd (np_sum (mask_where (\<lambda>c. c = 0) masked_classified)) pixel_area)) d;
                         d = add_threshold_fields rnd str_of thresholds unit_suffix pixel_area
                               masked_classified 0 thresholds d;
                         d = dict_set (''>'' @ str_of (last thresholds) @ '' m'' @ unit_suffix)
                               (PyFloat (int_mul_float rnd (np_sum (mask_where (\<lambda>c. c = length thresholds + 1) masked_classified)) pixel_area)) d;
                         d = dict_set (''total_flooded_area'' @ unit_suffix)
                               (PyFloat (int_mul_float rnd (np_sum (mask_where (\<lambda>c. 0 < c) masked_classified)) pixel_area)) d
                     in Inr d))))"

text \<open>
  The loop over \<open>villages_gdf.iterrows()\<close>; the index of a freshly read table is the
  position of the row. The first error ends the loop and the call.
\<close>

fun villages_loop ::
  "(real \<Rightarrow> real) \<Rightarrow> (fl \<Rightarrow> string) \<Rightarrow> 'g raster \<Rightarrow> fl list \<Rightarrow> real \<Rightarrow> string \<Rightarrow> nat \<Rightarrow> 'g village list \<Rightarrow>
   pydict list \<Rightarrow> event list \<Rightarrow> event list \<times> (py_error + pydict list)" where
  "villages_loop rnd str_of src thresholds pixel_area unit_suffix idx [] results trace = (trace, Inr results)"
| "villages_loop rnd str_of src thresholds pixel_area unit_suffix idx (v # vs) results trace =
     (case village_result rnd str_of src thresholds pixel_area unit_suffix idx v of
        Inl err \<Rightarrow> (trace @ [MaskCall idx], Inl err)
      | Inr row \<Rightarrow>
          villages_loop rnd str_of src thresholds pixel_area unit_suffix (Suc idx) vs
            (results @ [row]) (trace @ [MaskCall idx]))"

text \<open>
  The whole call. The table returned is the list of the rows; the \<open>with\<close> block closes
  the raster on every way out.
\<close>

definition calculate_flood_area_by_village ::
  "(real \<Rightarrow> real) \<Rightarrow> 'g env \<Rightarrow> (fl \<Rightarrow> string) \<Rightarrow> string \<Rightarrow> string \<Rightarrow> fl list option \<Rightarrow> string \<Rightarrow>
   event list \<times> (py_error + pydict list)" where
  "calculate_flood_area_by_village rnd e str_of flood_raster_path villages_shapefile_path thresholds_arg unit =
     (let thresholds = (case thresholds_arg of None \<Rightarrow> default_thresholds | Some ts \<Rightarrow> ts) in
      case read_file e villages_shapefile_path of
        Inl err \<Rightarrow> ([ReadFile villages_shapefile_path], Inl err)
      | Inr villages_gdf \<Rightarrow>
          (case rasterio_open e flood_raster_path of
             Inl err \<Rightarrow> ([ReadFile villages_shapefile_path, RasterOpen flood_raster_path], Inl err)
           | Inr src \<Rightarrow>
               (case read_band src 1 of
                  Inl err \<Rightarrow>
                    ([ReadFile villages_shapefile_path, RasterOpen flood_raster_path,
                      RasterRead 1, RasterClose], Inl err)
                | Inr flood_data \<Rightarrow>
                    (let pixel_area_m2 = \<bar>rnd (tr_a (transform src) * tr_e (transform src))\<bar> in
                     case resolve_unit rnd pixel_area_m2 unit of
                       Inl err \<Rightarrow>
                         ([ReadFile villages_shapefile_path, RasterOpen flood_raster_path,
                           RasterRead 1, RasterClose], Inl err)
                     | Inr (pixel_area, unit_suffix) \<Rightarrow>
                         (case villages_loop rnd str_of src thresholds pixel_area unit_suffix 0 villages_gdf []
                                 [ReadFile villages_shapefile_path, RasterOpen flood_raster_path, RasterRead 1] of
                            (trace, res) \<Rightarrow> (trace @ [RasterClose], res))))))"

section \<open>The fields of a row, apart from the unit\<close>

text \<open>
  The labels of the bands as the loop over the thresholds builds them, before the suffix
  of the unit is appended, and the cell counts stored under them. These definitions
  restate the body of the loop over the villages with the counts in place of the areas;
  the lemmas below relate them to \<open>village_result\<close>.
\<close>

definition band_label :: "(fl \<Rightarrow> string) \<Rightarrow> fl list \<Rightarrow> nat \<Rightarrow> string" where
  "band_label str_of thresholds i =
     (if i = 0 then ''0-'' @ str_of (thresholds ! 0) @ '' m''
      else str_of (thresholds ! (i - 1)) @ ''-'' @ str_of (thresholds ! i) @ ''m'')"

definition last_label :: "(fl \<Rightarrow> string) \<Rightarrow> fl list \<Rightarrow> string" where
  "last_label str_of thresholds = ''>'' @ str_of (last thresholds) @ '' m''"

definition category_count :: "nat grid \<Rightarrow> nat \<Rightarrow> nat" where
  "category_count g k = np_sum (mask_where (\<lambda>c. c = k) g)"

definition cell_count :: "'a grid \<Rightarrow> nat" where
  "cell_count g = length (concat g)"

fun add_band_counts ::
  "(fl \<Rightarrow> string) \<Rightarrow> fl list \<Rightarrow> nat grid \<Rightarrow> nat \<Rightarrow> fl list \<Rightarrow> (string \<times> nat) list \<Rightarrow> (string \<times> nat) list" where
  "add_band_counts str_of thresholds g i [] d = d"
| "add_band_counts str_of thresholds g i (threshold # rest) d =
     add_band_counts str_of thresholds g (Suc i) rest
       (dict_set (band_label str_of thresholds i) (category_count g (i + 1)) d)"

definition count_fields :: "(fl \<Rightarrow> string) \<Rightarrow> fl list \<Rightarrow> nat grid \<Rightarrow> (string \<times> nat) list" where
  "count_fields str_of thresholds g =
     dict_set ''total_flooded_area'' (np_sum (mask_where (\<lambda>c. 0 < c) g))
       (dict_set (last_label str_of thresholds) (category_count g (length thresholds + 1))
          (add_band_counts str_of thresholds g 0 thresholds
             [(''total_area'', np_sum (mask_where (\<lambda>c. 0 \<le> c) g)),
              (''no_flood_area'', category_count g 0)]))"

definition area_field :: "(real \<Rightarrow> real) \<Rightarrow> string \<Rightarrow> real \<Rightarrow> string \<times> nat \<Rightarrow> string \<times> pyval" where
  "area_field rnd unit_suffix pixel_area f =
     (fst f @ unit_suffix, PyFloat (int_mul_float rnd (snd f) pixel_area))"

definition band_labels :: "(fl \<Rightarrow> string) \<Rightarrow> fl list \<Rightarrow> string list" where
  "band_labels str_of thresholds =
     map (band_label str_of thresholds) [0..<length thresholds] @ [last_label str_of thresholds]"

definition inserted_labels :: "(fl \<Rightarrow> string) \<Rightarrow> fl list \<Rightarrow> string list" where
  "inserted_labels str_of thresholds =
     [''total_area'', ''no_flood_area''] @ band_labels str_of thresholds @ [''total_flooded_area'']"

text \<open>The keys of a dictionary after a sequence of stores, in the order of first store.\<close>

definition key_add :: "string list \<Rightarrow> string \<Rightarrow> string list" where
  "key_add ks k = (if k \<in> set ks then ks else ks @ [k])"

definition keys_after :: "string list \<Rightarrow> string list" where
  "keys_after ks = foldl key_add [] ks"

definition unit_suffix_ok :: "string \<Rightarrow> bool" where
  "unit_suffix_ok s = (s \<noteq> [] \<and> last s = CHR '')'')"

text \<open>The table of divisors as the specification gives it, to compare the unit dispatch with.\<close>

definition spec_unit_divisor :: "string \<Rightarrow> real option" where
  "spec_unit_divisor unit =
     (if unit = ''m2'' then Some 1
      else if unit = ''km2'' then Some 1000000
      else if unit = ''hectare'' then Some 10000
      else if unit = ''rai'' then Some 1600
      else None)"

text \<open>
  The pixel area in square metres of a raster, and the pixel area of a unit with divisor
  \<open>f\<close>, as the unit dispatch computes them: m2 takes the pixel area as it is, the other
  units divide it.
\<close>

definition pixel_area_m2_of :: "(real \<Rightarrow> real) \<Rightarrow> 'g raster \<Rightarrow> real" where
  "pixel_area_m2_of rnd src = abs (rnd (tr_a (transform src) * tr_e (transform src)))"

definition unit_pixel_area :: "(real \<Rightarrow> real) \<Rightarrow> real \<Rightarrow> string \<Rightarrow> real \<Rightarrow> real" where
  "unit_pixel_area rnd p unit f = (if unit = ''m2'' then p else rnd (p / f))"

section \<open>Sample inputs\<close>

text \<open>
  \<open>m / 2 ^ k\<close> is the binary floating-point number of precision \<open>p\<close> nearest to \<open>x\<close>: the
  significand \<open>m\<close> has exactly \<open>p\<close> bits and \<open>x\<close> is less than half a unit in the last
  place away (normal range, no tie). Precision 53 is binary64, precision 24 is float32.
\<close>

definition nearest_binary :: "nat \<Rightarrow> real \<Rightarrow> int \<Rightarrow> nat \<Rightarrow> bool" where
  "nearest_binary p x m k =
     (2 ^ (p - 1) \<le> m \<and> m < 2 ^ p \<and> \<bar>x * 2 ^ k - real_of_int m\<bar> < 1 / 2)"

text \<open>
  The conversion to float32 on the thresholds of the sample below: the binary64 number
  nearest to 0.1 is rounded to the float32 number nearest to it; 0.25 and the other
  values used are float32 numbers already.
\<close>

definition sample_float32 :: "fl \<Rightarrow> fl" where
  "sample_float32 t =
     (if t = Fin (3602879701896397 / 36028797018963968) then Fin (13421773 / 134217728) else t)"

text \<open>
  A raster of 40 by 40 metre cells (1600 square metres each) and three polygons: one
  clipped to a single cell of depth 0.75, one clipped to an empty grid, and one that the
  clip rejects as outside the raster, as rasterio does. \<open>sample_str\<close> is Python's text of
  the thresholds used here.
\<close>

definition sample_str :: "fl \<Rightarrow> string" where
  "sample_str t =
     (if t = Fin (1/2) then ''0.5'' else if t = Fin 1 then ''1.0''
      else if t = Fin 2 then ''2.0'' else if t = Fin 3 then ''3.0'' else ''nan'')"

text \<open>
  The rounding to binary64 on the results that arise in the runs below: the quotients
  1600 / 1000000 and 1600 / 10000 and the products of 6 and of 7 with the first of them
  are not binary64 numbers and are rounded to the nearest one; so are the quotient
  9600 / 1000000 and the sum and the difference used to compare the areas of the
  seven-cell clip. Every other result of these runs (-1600, 1, 0, a cell count, a cell
  count times 1600, one times a pixel area) is a binary64 number and is left as it is.
\<close>

definition sample_round :: "real \<Rightarrow> real" where
  "sample_round x =
     (if x = 1600 / 1000000 then 7378697629483821 / 2 ^ 62
      else if x = 1600 / 10000 then 5764607523034235 / 2 ^ 55
      else if x = 6 * (7378697629483821 / 2 ^ 62) then 5534023222112866 / 2 ^ 59
      else if x = 7 * (7378697629483821 / 2 ^ 62) then 6456360425798343 / 2 ^ 59
      else if x = 9600 / 1000000 then 5534023222112865 / 2 ^ 59
      else if x = 7378697629483821 / 2 ^ 62 + 5534023222112866 / 2 ^ 59
        then 6456360425798344 / 2 ^ 59
      else if x = 6456360425798343 / 2 ^ 59 - 7378697629483821 / 2 ^ 62
        then 5534023222112865 / 2 ^ 59
      else x)"

definition sample_transform :: affine where
  "sample_transform = \<lparr>tr_a = 40, tr_e = - 40\<rparr>"

definition sample_mask :: "nat list \<Rightarrow> py_error + (fl grid list \<times> affine)" where
  "sample_mask shapes =
     (if shapes = [0] then Inr ([[[Fin (3/4)]]], sample_transform)
      else if shapes = [1] then Inr ([[]], sample_transform)
      else Inl (ValueError ''Input shapes do not overlap raster.''))"

definition sample_raster :: "nat raster" where
  "sample_raster =
     \<lparr>dtype = (\<lambda>t. t), read_band = (\<lambda>b. Inr [[Fin 0, Fin (3/4)], [Fin 0, Fin 5]]),
      transform = sample_transform, crs = ''EPSG:32648'', mask = sample_mask\<rparr>"

definition sample_villages :: "nat village list" where
  "sample_villages =
     [\<lparr>geometry = 0, attributes = [''ADM3_EN'' \<mapsto> PyStr ''Pathum'']\<rparr>,
      \<lparr>geometry = 1, attributes = Map.empty\<rparr>]"

definition sample_env :: "nat env" where
  "sample_env = \<lparr>read_file = (\<lambda>p. Inr sample_villages), rasterio_open = (\<lambda>p. Inr sample_raster)\<rparr>"

definition outside_env :: "nat env" where
  "outside_env =
     \<lparr>read_file = (\<lambda>p. Inr (sample_villages @ [\<lparr>geometry = 2, attributes = Map.empty\<rparr>])),
      rasterio_open = (\<lambda>p. Inr sample_raster)\<rparr>"

text \<open>
  A second raster with the same cells, and one polygon clipped to seven of them: one
  cell of depth 0 and six of depth 0.75.
\<close>

definition seven_cells :: "fl grid" where
  "seven_cells = [[Fin 0, Fin (3/4), Fin (3/4), Fin (3/4), Fin (3/4), Fin (3/4), Fin (3/4)]]"

definition seven_mask :: "nat list \<Rightarrow> py_error + (fl grid list \<times> affine)" where
  "seven_mask shapes =
     (if shapes = [0] then Inr ([seven_cells], sample_transform)
      else Inl (ValueError ''Input shapes do not overlap raster.''))"

definition seven_raster :: "nat raster" where
  "seven_raster =
     \<lparr>dtype = (\<lambda>t. t), read_band = (\<lambda>b. Inr seven_cells),
      transform = sample_transform, crs = ''EPSG:32648'', mask = seven_mask\<rparr>"

definition seven_env :: "nat env" where
  "seven_env =
     \<lparr>read_file = (\<lambda>p. Inr [\<lparr>geometry = 0, attributes = Map.empty\<rparr>]),
      rasterio_open = (\<lambda>p. Inr seven_raster)\<rparr>"

section \<open>Threshold lists and bands\<close>

text \<open>
  A threshold list is strictly ascending when each element is below its successor, in
  the comparison of the values themselves.
\<close>

fun strictly_ascending :: "fl list \<Rightarrow> bool" where
  "strictly_ascending [] = True"
| "strictly_ascending [x] = True"
| "strictly_ascending (x # y # zs) = (fl_lt x y \<and> strictly_ascending (y # zs))"

text \<open>
  The test of band \<open>i\<close> (0-based), as the loop writes it: above the previous threshold
  (above 0 for the first band) and at most the threshold itself.
\<close>

definition in_band :: "fl list \<Rightarrow> nat \<Rightarrow> fl \<Rightarrow> bool" where
  "in_band thresholds i d =
     (if i = 0 then fl_gt d (Fin 0) \<and> fl_le d (thresholds ! 0)
      else fl_gt d (thresholds ! (i - 1)) \<and> fl_le d (thresholds ! i))"

definition above_last :: "fl list \<Rightarrow> fl \<Rightarrow> bool" where
  "above_last thresholds d = fl_gt d (thresholds ! (length thresholds - 1))"

text \<open>What the loop does to one cell: the category of the cell is passed along.\<close>

fun cell_loop :: "fl \<Rightarrow> fl list \<Rightarrow> nat \<Rightarrow> fl list \<Rightarrow> nat \<Rightarrow> nat" where
  "cell_loop d thresholds i [] c = c"
| "cell_loop d thresholds i (threshold # rest) c =
     cell_loop d thresholds (Suc i) rest
       (if i = 0 then (if fl_gt d (Fin 0) \<and> fl_le d threshold then i + 1 else c)
        else (if fl_gt d (thresholds ! (i - 1)) \<and> fl_le d threshold then i + 1 else c))"

text \<open>The category the classifier gives one cell: the last assignment that applies wins.\<close>

definition classify_cell :: "fl list \<Rightarrow> fl \<Rightarrow> nat" where
  "classify_cell ts d =
     (if fl_gt d (last ts) then length ts + 1
      else cell_loop d ts 0 ts (if fl_eq d (Fin 0) then 0 else 0))"

definition same_shape :: "'a grid \<Rightarrow> 'b grid \<Rightarrow> bool" where
  "same_shape xs ys = (map length xs = map length ys)"

section \<open>Order facts of the comparisons\<close>

lemma fl_lt_irrefl: "\<not> fl_lt x x"
  by (cases x) simp_all

lemma fl_lt_trans: "fl_lt x y \<Longrightarrow> fl_lt y z \<Longrightarrow> fl_lt x z"
  by (cases x; cases y; cases z) simp_all

lemma fl_lt_le_trans: "fl_lt x y \<Longrightarrow> fl_le y z \<Longrightarrow> fl_lt x z"
  by (cases x; cases y; cases z) simp_all

lemma fl_NaN_compare [simp]:
  "\<not> fl_lt NaN x" "\<not> fl_lt x NaN" "\<not> fl_le NaN x" "\<not> fl_le x NaN"
  "\<not> fl_eq NaN x" "\<not> fl_eq x NaN" "\<not> fl_gt NaN x" "\<not> fl_gt x NaN"
  by (cases x; simp add: fl_gt_def)+

lemma strictly_ascending_sorted_wrt: "strictly_ascending ts = sorted_wrt fl_lt ts"
proof (induction ts rule: strictly_ascending.induct)
  case (3 x y zs)
  then show ?case by (auto intro: fl_lt_trans)
qed simp_all

lemma strictly_ascending_nth:
  "strictly_ascending ts \<Longrightarrow> i < j \<Longrightarrow> j < length ts \<Longrightarrow> fl_lt (ts ! i) (ts ! j)"
  by (simp add: strictly_ascending_sorted_wrt sorted_wrt_iff_nth_less)

section \<open>Shapes and cells of the array operations\<close>

lemma same_shape_refl [simp]: "same_shape xs xs"
  by (simp add: same_shape_def)

lemma same_shape_length: "same_shape xs ys \<Longrightarrow> length xs = length ys"
  unfolding same_shape_def by (metis length_map)

lemma same_shape_row:
  "same_shape xs ys \<Longrightarrow> r < length xs \<Longrightarrow> length (xs ! r) = length (ys ! r)"
  unfolding same_shape_def by (metis length_map nth_map)

lemma zeros_like_shape [simp]: "same_shape (zeros_like arr) arr"
  by (simp add: same_shape_def zeros_like_def comp_def)

lemma zeros_like_nth:
  "r < length arr \<Longrightarrow> c < length (arr ! r) \<Longrightarrow> zeros_like arr ! r ! c = 0"
  by (simp add: zeros_like_def)

lemma mask_where_shape [simp]: "same_shape (mask_where p arr) arr"
  by (simp add: same_shape_def mask_where_def comp_def)

lemma mask_where_nth:
  "r < length arr \<Longrightarrow> c < length (arr ! r) \<Longrightarrow> mask_where p arr ! r ! c = p (arr ! r ! c)"
  by (simp add: mask_where_def)

lemma map2_length_rows:
  "map length m = map length arr \<Longrightarrow>
   map length (map2 (map2 f) m arr) = map length arr"
proof (induction m arbitrary: arr)
  case Nil
  then show ?case by simp
next
  case (Cons x m)
  then show ?case by (cases arr) auto
qed

lemma assign_where_shape:
  "same_shape m arr \<Longrightarrow> same_shape (assign_where m v arr) arr"
  unfolding same_shape_def assign_where_def by (rule map2_length_rows)

lemma assign_where_nth:
  assumes "same_shape m arr" "r < length arr" "c < length (arr ! r)"
  shows "assign_where m v arr ! r ! c = (if m ! r ! c then v else arr ! r ! c)"
proof -
  have lr: "r < length m" using assms same_shape_length by metis
  have lc: "length (m ! r) = length (arr ! r)" using assms lr same_shape_row by metis
  show ?thesis using assms lr lc by (simp add: assign_where_def)
qed

section \<open>The classifier, cell by cell\<close>

lemma classify_loop_shape:
  "same_shape classified depth_array \<Longrightarrow>
   same_shape (classify_loop to_dtype depth_array ts i rest classified) depth_array"
proof (induction rest arbitrary: i classified)
  case Nil
  then show ?case by simp
next
  case (Cons t rest)
  have m: "same_shape (mask_where p depth_array) classified" for p
    using Cons.prems by (simp add: same_shape_def mask_where_def comp_def)
  have "same_shape (assign_where (mask_where p depth_array) v classified) depth_array" for p v
    using assign_where_shape [OF m] Cons.prems by (simp add: same_shape_def)
  then show ?case by (simp add: Cons.IH)
qed

lemma classify_loop_nth:
  "same_shape classified depth_array \<Longrightarrow> r < length depth_array \<Longrightarrow>
   c < length (depth_array ! r) \<Longrightarrow> drop i ts = rest \<Longrightarrow>
   classify_loop to_dtype depth_array ts i rest classified ! r ! c =
     cell_loop (depth_array ! r ! c) (map to_dtype ts) i (map to_dtype rest) (classified ! r ! c)"
proof (induction rest arbitrary: i classified)
  case Nil
  then show ?case by simp
next
  case (Cons t rest)
  have il: "i < length ts"
    using Cons.prems(4) by (cases "i < length ts") simp_all
  have dr: "drop (Suc i) ts = rest"
    using Cons.prems(4) by (metis drop_Suc list.sel(3) tl_drop)
  have prev: "map to_dtype ts ! (i - Suc 0) = to_dtype (ts ! (i - Suc 0))"
    using il by simp
  have lr: "r < length classified"
    using Cons.prems same_shape_length by metis
  have lc: "c < length (classified ! r)"
    using Cons.prems lr same_shape_row by metis
  have m: "same_shape (mask_where p depth_array) classified" for p
    using Cons.prems(1) by (simp add: same_shape_def mask_where_def comp_def)
  have sh: "same_shape (assign_where (mask_where p depth_array) v classified) depth_array" for p v
    using assign_where_shape [OF m] Cons.prems(1) by (simp add: same_shape_def)
  have cell: "assign_where (mask_where p depth_array) v classified ! r ! c =
      (if p (depth_array ! r ! c) then v else classified ! r ! c)" for p v
    using assign_where_nth [OF m lr lc] Cons.prems(2,3) by (simp add: mask_where_nth)
  show ?case
  proof (cases "i = 0")
    case True
    then show ?thesis using Cons.IH [OF sh Cons.prems(2,3) dr] by (simp add: cell)
  next
    case False
    then show ?thesis using Cons.IH [OF sh Cons.prems(2,3) dr] by (simp add: cell prev)
  qed
qed

lemma classify_flood_depth_empty:
  "classify_flood_depth to_dtype depth_array (Some []) = Inl IndexError"
  by (simp add: classify_flood_depth_def)

lemma classify_flood_depth_cells:
  assumes "ts \<noteq> []"
  shows "\<exists>cg. classify_flood_depth to_dtype depth_array (Some ts) = Inr cg \<and>
           same_shape cg depth_array \<and>
           (\<forall>r c. r < length depth_array \<and> c < length (depth_array ! r) \<longrightarrow>
              cg ! r ! c = classify_cell (map to_dtype ts) (depth_array ! r ! c))"
proof -
  define z where "z = assign_where (mask_where (\<lambda>d. fl_eq d (Fin 0)) depth_array) 0 (zeros_like depth_array)"
  define l where "l = classify_loop to_dtype depth_array ts 0 ts z"
  define cg where "cg = assign_where (mask_where (\<lambda>d. fl_gt d (to_dtype (last ts))) depth_array)
                          (length ts + 1) l"
  have lst: "last (map to_dtype ts) = to_dtype (last ts)"
    using assms by (simp add: last_map)
  have mz: "same_shape (mask_where p depth_array) (zeros_like depth_array)" for p
    by (simp add: same_shape_def mask_where_def zeros_like_def comp_def)
  have zs: "same_shape z depth_array"
    unfolding z_def using assign_where_shape [OF mz] by (simp add: same_shape_def zeros_like_def comp_def)
  have ls: "same_shape l depth_array"
    unfolding l_def by (rule classify_loop_shape [OF zs])
  have ml: "same_shape (mask_where p depth_array) l" for p
    using ls by (simp add: same_shape_def mask_where_def comp_def)
  have cs: "same_shape cg depth_array"
    unfolding cg_def using assign_where_shape [OF ml] ls by (simp add: same_shape_def)
  have res: "classify_flood_depth to_dtype depth_array (Some ts) = Inr cg"
    using assms by (simp add: classify_flood_depth_def cg_def l_def z_def)
  have cells: "cg ! r ! c = classify_cell (map to_dtype ts) (depth_array ! r ! c)"
    if rc: "r < length depth_array" "c < length (depth_array ! r)" for r c
  proof -
    have lr0: "r < length (zeros_like depth_array)" using rc by (simp add: zeros_like_def)
    have lc0: "c < length (zeros_like depth_array ! r)" using rc by (simp add: zeros_like_def)
    have zc: "z ! r ! c = (if fl_eq (depth_array ! r ! c) (Fin 0) then 0 else 0)"
      unfolding z_def using assign_where_nth [OF mz lr0 lc0] rc
      by (simp add: mask_where_nth zeros_like_nth)
    have lcell: "l ! r ! c =
        cell_loop (depth_array ! r ! c) (map to_dtype ts) 0 (map to_dtype ts) (z ! r ! c)"
      unfolding l_def using classify_loop_nth [OF zs rc, of 0 ts ts to_dtype] by simp
    have lr: "r < length l" using ls rc same_shape_length by metis
    have lc: "c < length (l ! r)" using ls rc lr same_shape_row by metis
    have "cg ! r ! c =
        (if fl_gt (depth_array ! r ! c) (to_dtype (last ts)) then length ts + 1 else l ! r ! c)"
      unfolding cg_def using assign_where_nth [OF ml lr lc] rc by (simp add: mask_where_nth)
    then show ?thesis by (simp add: classify_cell_def lcell zc lst)
  qed
  show ?thesis using res cs cells by blast
qed

section \<open>What the loop does to one cell\<close>

lemma drop_Cons_nth: "drop i ts = t # rest \<Longrightarrow> i < length ts \<and> ts ! i = t \<and> drop (Suc i) ts = rest"
  by (metis Cons_nth_drop_Suc drop_eq_Nil list.distinct(1) list.inject not_le)

lemma cell_loop_step:
  "drop i ts = t # rest \<Longrightarrow>
   cell_loop d ts i (t # rest) c = cell_loop d ts (Suc i) rest (if in_band ts i d then i + 1 else c)"
  using drop_Cons_nth [of i ts t rest] by (auto simp: in_band_def)

lemma cell_loop_none:
  "drop i ts = rest \<Longrightarrow> (\<forall>j. i \<le> j \<and> j < length ts \<longrightarrow> \<not> in_band ts j d) \<Longrightarrow>
   cell_loop d ts i rest c = c"
proof (induction rest arbitrary: i c)
  case Nil
  then show ?case by simp
next
  case (Cons t rest)
  have s: "i < length ts" "drop (Suc i) ts = rest"
    using drop_Cons_nth [OF Cons.prems(1)] by simp_all
  have nb: "\<not> in_band ts i d" using Cons.prems(2) s(1) by simp
  have "cell_loop d ts (Suc i) rest c = c"
    using Cons.IH [OF s(2)] Cons.prems(2) by simp
  then show ?case
    using cell_loop_step [OF Cons.prems(1)] nb by simp
qed

lemma cell_loop_hit:
  "drop i ts = rest \<Longrightarrow> i \<le> j \<Longrightarrow> j < length ts \<Longrightarrow> in_band ts j d \<Longrightarrow>
   (\<forall>k. j < k \<and> k < length ts \<longrightarrow> \<not> in_band ts k d) \<Longrightarrow>
   cell_loop d ts i rest c = j + 1"
proof (induction rest arbitrary: i c)
  case Nil
  then show ?case by simp
next
  case (Cons t rest)
  have s: "i < length ts" "drop (Suc i) ts = rest"
    using drop_Cons_nth [OF Cons.prems(1)] by simp_all
  show ?case
  proof (cases "i = j")
    case True
    have "cell_loop d ts (Suc i) rest (i + 1) = i + 1"
      using cell_loop_none [OF s(2)] Cons.prems(5) True by simp
    then show ?thesis
      using cell_loop_step [OF Cons.prems(1)] Cons.prems(4) True by simp
  next
    case False
    then have "Suc i \<le> j" using Cons.prems(2) by simp
    then have "cell_loop d ts (Suc i) rest c' = j + 1" for c'
      using Cons.IH [OF s(2) _ Cons.prems(3,4,5)] by simp
    then show ?thesis
      using cell_loop_step [OF Cons.prems(1)] by simp
  qed
qed

lemma cell_loop_cases:
  "drop i ts = rest \<Longrightarrow>
   cell_loop d ts i rest c = c \<or>
   (\<exists>j. i \<le> j \<and> j < length ts \<and> in_band ts j d \<and> cell_loop d ts i rest c = j + 1)"
proof (induction rest arbitrary: i c)
  case Nil
  then show ?case by simp
next
  case (Cons t rest)
  have s: "i < length ts" "drop (Suc i) ts = rest"
    using drop_Cons_nth [OF Cons.prems(1)] by simp_all
  define c' where "c' = (if in_band ts i d then i + 1 else c)"
  have step: "cell_loop d ts i (t # rest) c = cell_loop d ts (Suc i) rest c'"
    unfolding c'_def by (rule cell_loop_step [OF Cons.prems(1)])
  from Cons.IH [OF s(2), of c'] show ?case
  proof
    assume e: "cell_loop d ts (Suc i) rest c' = c'"
    show ?thesis
    proof (cases "in_band ts i d")
      case True
      then show ?thesis using e step s(1) by (auto simp: c'_def)
    next
      case False
      then show ?thesis using e step by (simp add: c'_def)
    qed
  next
    assume "\<exists>j. Suc i \<le> j \<and> j < length ts \<and> in_band ts j d \<and> cell_loop d ts (Suc i) rest c' = j + 1"
    then obtain j where "Suc i \<le> j" "j < length ts" "in_band ts j d"
      "cell_loop d ts (Suc i) rest c' = j + 1" by blast
    then show ?thesis using step by (intro disjI2 exI [of _ j]) simp
  qed
qed

section \<open>Bands of an ascending threshold list\<close>

lemma nth_ascending_le:
  assumes "strictly_ascending ts" "j \<le> k" "k < length ts" "fl_lt (ts ! k) (ts ! j)"
  shows False
proof (cases "j = k")
  case True
  then show ?thesis using assms(4) fl_lt_irrefl by simp
next
  case False
  then have "fl_lt (ts ! j) (ts ! k)"
    using assms(1,2,3) strictly_ascending_nth by simp
  then show ?thesis using assms(4) fl_lt_trans fl_lt_irrefl by blast
qed

lemma band_disjoint:
  assumes "strictly_ascending ts" "j < k" "k < length ts" "in_band ts j d"
  shows "\<not> in_band ts k d"
proof
  assume k: "in_band ts k d"
  have "fl_le d (ts ! j)" using assms(4) by (auto simp: in_band_def split: if_splits)
  moreover have "fl_lt (ts ! (k - 1)) d" using k assms(2) by (simp add: in_band_def fl_gt_def)
  ultimately have lt: "fl_lt (ts ! (k - 1)) (ts ! j)" by (rule fl_lt_le_trans [rotated])
  have "j \<le> k - 1" "k - 1 < length ts" using assms(2,3) by arith+
  then show False using lt by (rule nth_ascending_le [OF assms(1)])
qed

lemma band_not_above:
  assumes "strictly_ascending ts" "j < length ts" "in_band ts j d"
  shows "\<not> above_last ts d"
proof
  assume a: "above_last ts d"
  have "fl_le d (ts ! j)" using assms(3) by (auto simp: in_band_def split: if_splits)
  moreover have "fl_lt (ts ! (length ts - 1)) d" using a by (simp add: above_last_def fl_gt_def)
  ultimately have lt: "fl_lt (ts ! (length ts - 1)) (ts ! j)" by (rule fl_lt_le_trans [rotated])
  have "j \<le> length ts - 1" "length ts - 1 < length ts" using assms(2) by arith+
  then show False using lt by (rule nth_ascending_le [OF assms(1)])
qed

lemma classify_cell_above:
  "ts \<noteq> [] \<Longrightarrow> above_last ts d \<Longrightarrow> classify_cell ts d = length ts + 1"
  by (simp add: classify_cell_def above_last_def last_conv_nth)

lemma classify_cell_not_above:
  "ts \<noteq> [] \<Longrightarrow> \<not> above_last ts d \<Longrightarrow> classify_cell ts d = cell_loop d ts 0 ts 0"
  by (simp add: classify_cell_def above_last_def last_conv_nth)

lemma classify_cell_cases:
  assumes "ts \<noteq> []"
  shows "(above_last ts d \<and> classify_cell ts d = length ts + 1) \<or>
         (\<not> above_last ts d \<and> classify_cell ts d = 0) \<or>
         (\<not> above_last ts d \<and> (\<exists>j < length ts. in_band ts j d \<and> classify_cell ts d = j + 1))"
proof (cases "above_last ts d")
  case True
  then show ?thesis using classify_cell_above [OF assms] by simp
next
  case False
  have "cell_loop d ts 0 ts 0 = 0 \<or>
        (\<exists>j. 0 \<le> j \<and> j < length ts \<and> in_band ts j d \<and> cell_loop d ts 0 ts 0 = j + 1)"
    by (rule cell_loop_cases) simp
  then show ?thesis using False classify_cell_not_above [OF assms False] by auto
qed

lemma classify_cell_range: "ts \<noteq> [] \<Longrightarrow> classify_cell ts d \<le> length ts + 1"
  using classify_cell_cases [of ts d] by auto

lemma classify_cell_band:
  assumes "ts \<noteq> []" "strictly_ascending ts" "i < length ts"
  shows "classify_cell ts d = i + 1 \<longleftrightarrow> in_band ts i d"
proof
  assume b: "in_band ts i d"
  have na: "\<not> above_last ts d" by (rule band_not_above [OF assms(2,3) b])
  have "\<forall>k. i < k \<and> k < length ts \<longrightarrow> \<not> in_band ts k d"
    using band_disjoint [OF assms(2) _ _ b] by blast
  then have "cell_loop d ts 0 ts 0 = i + 1"
    using cell_loop_hit [of 0 ts ts i d 0] assms(3) b by simp
  then show "classify_cell ts d = i + 1"
    using classify_cell_not_above [OF assms(1) na] by simp
next
  assume e: "classify_cell ts d = i + 1"
  from classify_cell_cases [OF assms(1), of d] show "in_band ts i d"
  proof (elim disjE conjE exE)
    assume "classify_cell ts d = length ts + 1"
    then show ?thesis using e assms(3) by simp
  next
    assume "classify_cell ts d = 0"
    then show ?thesis using e by simp
  next
    fix j assume "in_band ts j d" "classify_cell ts d = j + 1"
    then show ?thesis using e by simp
  qed
qed

lemma classify_cell_last:
  assumes "ts \<noteq> []"
  shows "classify_cell ts d = length ts + 1 \<longleftrightarrow> above_last ts d"
  using classify_cell_cases [OF assms, of d] by auto

lemma fl_eq_zero: "fl_eq d (Fin 0) \<Longrightarrow> d = Fin 0"
  by (cases d) simp_all

lemma zero_in_no_band:
  assumes "strictly_ascending ts" "\<not> fl_lt (ts ! 0) (Fin 0)" "i < length ts"
  shows "\<not> in_band ts i (Fin 0)"
proof (cases "i = 0")
  case True
  then show ?thesis by (simp add: in_band_def fl_gt_def)
next
  case False
  show ?thesis
  proof
    assume "in_band ts i (Fin 0)"
    then have l: "fl_lt (ts ! (i - 1)) (Fin 0)" using False by (simp add: in_band_def fl_gt_def)
    show False
    proof (cases "i - 1 = 0")
      case True
      then show ?thesis using l assms(2) by simp
    next
      case False
      then have "fl_lt (ts ! 0) (ts ! (i - 1))"
        using strictly_ascending_nth [OF assms(1), of 0 "i - 1"] assms(3) by simp
      then show ?thesis using l assms(2) fl_lt_trans by blast
    qed
  qed
qed

lemma zero_not_above:
  assumes "ts \<noteq> []" "strictly_ascending ts" "\<not> fl_lt (ts ! 0) (Fin 0)"
  shows "\<not> above_last ts (Fin 0)"
proof
  assume "above_last ts (Fin 0)"
  then have l: "fl_lt (ts ! (length ts - 1)) (Fin 0)" by (simp add: above_last_def fl_gt_def)
  show False
  proof (cases "length ts - 1 = 0")
    case True
    then show ?thesis using l assms(3) by simp
  next
    case False
    then have "fl_lt (ts ! 0) (ts ! (length ts - 1))"
      using strictly_ascending_nth [OF assms(2), of 0 "length ts - 1"] by simp
    then show ?thesis using l assms(3) fl_lt_trans by blast
  qed
qed

lemma classify_cell_zero:
  assumes "ts \<noteq> []" "strictly_ascending ts" "\<not> fl_lt (ts ! 0) (Fin 0)" "fl_eq d (Fin 0)"
  shows "classify_cell ts d = 0"
proof -
  have d: "d = Fin 0" by (rule fl_eq_zero [OF assms(4)])
  from classify_cell_cases [OF assms(1), of d] show ?thesis
    using zero_not_above [OF assms(1,2,3)] zero_in_no_band [OF assms(2,3)] d by auto
qed

lemma classify_cell_at_threshold:
  assumes "ts \<noteq> []" "strictly_ascending ts" "fl_gt (ts ! 0) (Fin 0)" "i < length ts"
    "fl_eq d (ts ! i)"
  shows "classify_cell ts d = i + 1"
proof -
  have le: "fl_le d (ts ! i)" using assms(5) by (cases d; cases "ts ! i") simp_all
  have low: "fl_gt d (if i = 0 then Fin 0 else ts ! (i - 1))"
  proof (cases "i = 0")
    case True
    then show ?thesis using assms(3,5) by (cases d; cases "ts ! 0") (simp_all add: fl_gt_def)
  next
    case False
    then have "fl_lt (ts ! (i - 1)) (ts ! i)"
      using strictly_ascending_nth [OF assms(2), of "i - 1" i] assms(4) by simp
    then show ?thesis using False assms(5)
      by (cases d; cases "ts ! i"; cases "ts ! (i - 1)") (simp_all add: fl_gt_def)
  qed
  have "in_band ts i d" using le low by (cases "i = 0") (simp_all add: in_band_def)
  then show ?thesis using classify_cell_band [OF assms(1,2,4)] by simp
qed

lemma negative_in_no_band:
  assumes "\<forall>t \<in> set ts. \<not> fl_lt t (Fin 0)" "fl_lt d (Fin 0)" "i < length ts"
  shows "\<not> in_band ts i d"
proof
  assume b: "in_band ts i d"
  show False
  proof (cases "i = 0")
    case True
    then have "fl_lt (Fin 0) d" using b by (simp add: in_band_def fl_gt_def)
    then show ?thesis using assms(2) fl_lt_trans fl_lt_irrefl by blast
  next
    case False
    then have "fl_lt (ts ! (i - 1)) d" using b by (simp add: in_band_def fl_gt_def)
    then have "fl_lt (ts ! (i - 1)) (Fin 0)" using assms(2) fl_lt_trans by blast
    moreover have "ts ! (i - 1) \<in> set ts" using assms(3) by simp
    ultimately show ?thesis using assms(1) by blast
  qed
qed

lemma negative_not_above:
  assumes "ts \<noteq> []" "\<forall>t \<in> set ts. \<not> fl_lt t (Fin 0)" "fl_lt d (Fin 0)"
  shows "\<not> above_last ts d"
proof
  assume "above_last ts d"
  then have "fl_lt (ts ! (length ts - 1)) d" by (simp add: above_last_def fl_gt_def)
  then have "fl_lt (ts ! (length ts - 1)) (Fin 0)" using assms(3) fl_lt_trans by blast
  moreover have "ts ! (length ts - 1) \<in> set ts" using assms(1) by simp
  ultimately show False using assms(2) by blast
qed

lemma NaN_in_no_band: "\<not> in_band ts i NaN"
  by (simp add: in_band_def)

lemma NaN_not_above: "\<not> above_last ts NaN"
  by (simp add: above_last_def)

section \<open>Dictionaries\<close>

lemma dict_set_pre:
  "k \<notin> fst ` set pre \<Longrightarrow> dict_set k v (pre @ d) = pre @ dict_set k v d"
  by (induction pre) auto

lemma dict_set_area_field:
  "dict_set (b @ s) (PyFloat (int_mul_float rnd n pa)) (map (area_field rnd s pa) d) =
   map (area_field rnd s pa) (dict_set b n d)"
  by (induction d) (auto simp: area_field_def)

lemma dict_set_fresh:
  "k \<notin> fst ` set d \<Longrightarrow> dict_set k v d = d @ [(k, v)]"
proof (induction d)
  case Nil
  then show ?case by simp
next
  case (Cons x d)
  obtain k' v' where x: "x = (k', v')" by (cases x)
  have "k' \<noteq> k" using Cons.prems x by auto
  moreover have "k \<notin> fst ` set d" using Cons.prems by simp
  ultimately show ?case using Cons.IH x by simp
qed

lemma keys_dict_set: "map fst (dict_set k v d) = key_add (map fst d) k"
proof (induction d)
  case Nil
  then show ?case by (simp add: key_add_def)
next
  case (Cons x d)
  obtain k' v' where x: "x = (k', v')" by (cases x)
  show ?case
  proof (cases "k' = k")
    case True
    then show ?thesis using x by (simp add: key_add_def)
  next
    case False
    then show ?thesis using x Cons.IH by (simp add: key_add_def)
  qed
qed

lemma dict_set_member:
  "(k', v') \<in> set (dict_set k v d) \<Longrightarrow> v' = v \<or> (k', v') \<in> set d"
  by (induction d) (auto split: if_splits)

section \<open>The row of one village\<close>

lemma suffix_not_village_key:
  assumes "unit_suffix_ok s"
  shows "b @ s \<noteq> ''village_id''" "b @ s \<noteq> ''village_name''"
proof -
  have l: "last (b @ s) = CHR '')''" using assms by (simp add: unit_suffix_ok_def)
  show "b @ s \<noteq> ''village_id''"
  proof
    assume "b @ s = ''village_id''"
    then have "last (b @ s) = last ''village_id''" by simp
    then show False using l by simp
  qed
  show "b @ s \<noteq> ''village_name''"
  proof
    assume "b @ s = ''village_name''"
    then have "last (b @ s) = last ''village_name''" by simp
    then show False using l by simp
  qed
qed

lemma add_threshold_fields_counts:
  "drop i ts = rest \<Longrightarrow> (\<forall>b. b @ s \<notin> fst ` set pre) \<Longrightarrow>
   add_threshold_fields rnd str_of ts s pa g i rest (pre @ map (area_field rnd s pa) d) =
   pre @ map (area_field rnd s pa) (add_band_counts str_of ts g i rest d)"
proof (induction rest arbitrary: i d)
  case Nil
  then show ?case by simp
next
  case (Cons t rest)
  have n: "ts ! i = t" "drop (Suc i) ts = rest"
    using drop_Cons_nth [OF Cons.prems(1)] by simp_all
  have name: "(if i = 0 then ''0-'' @ str_of t @ '' m'' @ s
               else str_of (ts ! (i - 1)) @ ''-'' @ str_of t @ ''m'' @ s) = band_label str_of ts i @ s"
    using n(1) by (auto simp: band_label_def)
  have fresh: "band_label str_of ts i @ s \<notin> fst ` set pre"
    using Cons.prems(2) by blast
  have "dict_set (band_label str_of ts i @ s)
          (PyFloat (int_mul_float rnd (np_sum (mask_where (\<lambda>c. c = i + 1) g)) pa))
          (pre @ map (area_field rnd s pa) d) =
        pre @ map (area_field rnd s pa) (dict_set (band_label str_of ts i) (category_count g (i + 1)) d)"
    unfolding category_count_def dict_set_pre [OF fresh] dict_set_area_field by (rule refl)
  then show ?case
    using Cons.IH [OF n(2) Cons.prems(2)] by (simp only: add_threshold_fields.simps add_band_counts.simps name)
qed

lemma village_result_row:
  assumes "unit_suffix_ok s" "mask src [geometry v] = Inr (band # others, mt)"
    "classify_flood_depth (dtype src) band (Some ts) = Inr g"
  shows "village_result rnd str_of src ts pa s idx v =
     Inr ([(''village_id'', series_get v ''ADM3_EN'' (PyInt (int idx))),
           (''village_name'', series_get v ''ADM3_TH'' (PyStr (''Village_'' @ str_of_nat idx)))]
          @ map (area_field rnd s pa) (count_fields str_of ts g))"
proof -
  let ?pre = "[(''village_id'', series_get v ''ADM3_EN'' (PyInt (int idx))),
           (''village_name'', series_get v ''ADM3_TH'' (PyStr (''Village_'' @ str_of_nat idx)))]"
  let ?d0 = "[(''total_area'', np_sum (mask_where (\<lambda>c. 0 \<le> c) g)), (''no_flood_area'', category_count g 0)]"
  have fresh: "\<forall>b. b @ s \<notin> fst ` set ?pre"
    using suffix_not_village_key [OF assms(1)] by simp
  have start: "dict_set (''no_flood_area'' @ s) (PyFloat (int_mul_float rnd (np_sum (mask_where (\<lambda>c. c = 0) g)) pa))
          (dict_set (''total_area'' @ s) (PyFloat (int_mul_float rnd (np_sum (mask_where (\<lambda>c. 0 \<le> c) g)) pa))
             (dict_set ''village_name'' (series_get v ''ADM3_TH'' (PyStr (''Village_'' @ str_of_nat idx)))
                (dict_set ''village_id'' (series_get v ''ADM3_EN'' (PyInt (int idx))) []))) =
        ?pre @ map (area_field rnd s pa) ?d0"
    by (simp add: area_field_def category_count_def)
  have loop: "add_threshold_fields rnd str_of ts s pa g 0 ts (?pre @ map (area_field rnd s pa) ?d0) =
        ?pre @ map (area_field rnd s pa) (add_band_counts str_of ts g 0 ts ?d0)"
    by (rule add_threshold_fields_counts [OF _ fresh]) simp
  have lastf: "dict_set (''>'' @ str_of (last ts) @ '' m'' @ s)
          (PyFloat (int_mul_float rnd (np_sum (mask_where (\<lambda>c. c = length ts + 1) g)) pa))
          (?pre @ map (area_field rnd s pa) d) =
        ?pre @ map (area_field rnd s pa) (dict_set (last_label str_of ts) (category_count g (length ts + 1)) d)" for d
  proof -
    have e: "''>'' @ str_of (last ts) @ '' m'' @ s = last_label str_of ts @ s"
      by (simp add: last_label_def)
    have f: "last_label str_of ts @ s \<notin> fst ` set ?pre" using fresh by blast
    show ?thesis
      unfolding e category_count_def dict_set_pre [OF f] dict_set_area_field by (rule refl)
  qed
  have flooded: "dict_set (''total_flooded_area'' @ s)
          (PyFloat (int_mul_float rnd (np_sum (mask_where (\<lambda>c. 0 < c) g)) pa))
          (?pre @ map (area_field rnd s pa) d) =
        ?pre @ map (area_field rnd s pa) (dict_set ''total_flooded_area'' (np_sum (mask_where (\<lambda>c. 0 < c) g)) d)" for d
  proof -
    have f: "''total_flooded_area'' @ s \<notin> fst ` set ?pre" using fresh by blast
    show ?thesis unfolding dict_set_pre [OF f] dict_set_area_field by (rule refl)
  qed
  have "village_result rnd str_of src ts pa s idx v =
      Inr (dict_set (''total_flooded_area'' @ s) (PyFloat (int_mul_float rnd (np_sum (mask_where (\<lambda>c. 0 < c) g)) pa))
        (dict_set (''>'' @ str_of (last ts) @ '' m'' @ s)
           (PyFloat (int_mul_float rnd (np_sum (mask_where (\<lambda>c. c = length ts + 1) g)) pa))
           (add_threshold_fields rnd str_of ts s pa g 0 ts
             (dict_set (''no_flood_area'' @ s) (PyFloat (int_mul_float rnd (np_sum (mask_where (\<lambda>c. c = 0) g)) pa))
               (dict_set (''total_area'' @ s) (PyFloat (int_mul_float rnd (np_sum (mask_where (\<lambda>c. 0 \<le> c) g)) pa))
                 (dict_set ''village_name'' (series_get v ''ADM3_TH'' (PyStr (''Village_'' @ str_of_nat idx)))
                   (dict_set ''village_id'' (series_get v ''ADM3_EN'' (PyInt (int idx))) [])))))))"
    by (simp only: village_result_def Let_def assms(2,3) sum.case prod.case list.case)
  also have "\<dots> = Inr (?pre @ map (area_field rnd s pa) (count_fields str_of ts g))"
    by (simp only: start loop lastf flooded count_fields_def)
  finally show ?thesis .
qed

lemma village_result_Inr:
  assumes "village_result rnd str_of src ts pa s idx v = Inr row"
  shows "\<exists>band others mt g. mask src [geometry v] = Inr (band # others, mt) \<and>
           classify_flood_depth (dtype src) band (Some ts) = Inr g"
  using assms unfolding village_result_def
  by (auto split: sum.splits list.splits prod.splits)

lemma village_result_mask_error:
  "mask src [geometry v] = Inl err \<Longrightarrow> village_result rnd str_of src ts pa s idx v = Inl err"
  by (simp add: village_result_def)

section \<open>The loop over the villages and the whole call\<close>

lemma villages_loop_Inr:
  "villages_loop rnd str_of src ts pa s idx vs results trace = (tr, Inr table) \<Longrightarrow>
   tr = trace @ map MaskCall [idx..<idx + length vs] \<and>
   length table = length results + length vs \<and>
   take (length results) table = results \<and>
   (\<forall>k < length vs. village_result rnd str_of src ts pa s (idx + k) (vs ! k) =
                      Inr (table ! (length results + k)))"
proof (induction vs arbitrary: idx results trace)
  case Nil
  then show ?case by simp
next
  case (Cons v vs)
  show ?case
  proof (cases "village_result rnd str_of src ts pa s idx v")
    case (Inl err)
    then show ?thesis using Cons.prems by simp
  next
    case (Inr row)
    then have "villages_loop rnd str_of src ts pa s (Suc idx) vs (results @ [row]) (trace @ [MaskCall idx])
               = (tr, Inr table)"
      using Cons.prems by simp
    from Cons.IH [OF this]
    have t: "tr = (trace @ [MaskCall idx]) @ map MaskCall [Suc idx..<Suc idx + length vs]"
      and l: "length table = length (results @ [row]) + length vs"
      and p: "take (length (results @ [row])) table = results @ [row]"
      and r: "\<forall>k < length vs. village_result rnd str_of src ts pa s (Suc idx + k) (vs ! k) =
                      Inr (table ! (length (results @ [row]) + k))"
      by blast+
    have "idx < idx + length (v # vs)" by simp
    then have "[idx..<idx + length (v # vs)] = idx # [Suc idx..<idx + length (v # vs)]"
      by (rule upt_conv_Cons)
    moreover have "idx + length (v # vs) = Suc idx + length vs" by simp
    ultimately have u: "[idx..<idx + length (v # vs)] = idx # [Suc idx..<Suc idx + length vs]"
      by (simp only:)
    have t': "tr = trace @ map MaskCall [idx..<idx + length (v # vs)]"
      unfolding u using t by simp
    have l': "length table = length results + length (v # vs)" using l by simp
    have "take (length results) (take (length (results @ [row])) table) = take (length results) (results @ [row])"
      using p by simp
    then have p': "take (length results) table = results" by (simp add: min_def)
    have "table ! length results = (take (length (results @ [row])) table) ! length results"
      by simp
    then have row: "table ! length results = row" unfolding p by simp
    have r': "village_result rnd str_of src ts pa s (idx + k) ((v # vs) ! k) =
                Inr (table ! (length results + k))" if "k < length (v # vs)" for k
    proof (cases k)
      case 0
      then show ?thesis using Inr row by simp
    next
      case (Suc k')
      then have "k' < length vs" using that by simp
      then show ?thesis using r Suc by simp
    qed
    show ?thesis using t' l' p' r' by blast
  qed
qed

lemma resolve_unit_Inr:
  "resolve_unit rnd p unit = Inr (pa, s) \<Longrightarrow>
   unit_suffix_ok s \<and>
   (\<exists>f. spec_unit_divisor unit = Some f \<and> pa = (if unit = ''m2'' then p else rnd (p / f)))"
  by (auto simp: resolve_unit_def spec_unit_divisor_def unit_suffix_ok_def split: if_splits)

lemma resolve_unit_unknown:
  "spec_unit_divisor unit = None \<Longrightarrow> resolve_unit rnd p unit = Inl (ValueError unit_error_message)"
  by (auto simp: resolve_unit_def spec_unit_divisor_def split: if_splits)

lemma calculate_Inr:
  assumes "calculate_flood_area_by_village rnd e str_of rp vp (Some ts) unit = (tr, Inr table)"
  shows "\<exists>villages src flood_data pa s.
     read_file e vp = Inr villages \<and> rasterio_open e rp = Inr src \<and>
     read_band src 1 = Inr flood_data \<and>
     resolve_unit rnd \<bar>rnd (tr_a (transform src) * tr_e (transform src))\<bar> unit = Inr (pa, s) \<and>
     tr = [ReadFile vp, RasterOpen rp, RasterRead 1] @ map MaskCall [0..<length villages] @ [RasterClose] \<and>
     length table = length villages \<and>
     (\<forall>k < length villages. village_result rnd str_of src ts pa s k (villages ! k) = Inr (table ! k))"
proof -
  from assms obtain villages where v: "read_file e vp = Inr villages"
    by (cases "read_file e vp") (auto simp: calculate_flood_area_by_village_def)
  from assms v obtain src where s: "rasterio_open e rp = Inr src"
    by (cases "rasterio_open e rp") (auto simp: calculate_flood_area_by_village_def)
  from assms v s obtain flood_data where d: "read_band src 1 = Inr flood_data"
    by (cases "read_band src 1") (auto simp: calculate_flood_area_by_village_def)
  let ?p = "\<bar>rnd (tr_a (transform src) * tr_e (transform src))\<bar>"
  from assms v s d obtain pa sf where u: "resolve_unit rnd ?p unit = Inr (pa, sf)"
    by (cases "resolve_unit rnd ?p unit") (auto simp: calculate_flood_area_by_village_def Let_def)
  obtain tr0 res where lp: "villages_loop rnd str_of src ts pa sf 0 villages []
      [ReadFile vp, RasterOpen rp, RasterRead 1] = (tr0, res)"
    by (cases "villages_loop rnd str_of src ts pa sf 0 villages [] [ReadFile vp, RasterOpen rp, RasterRead 1]")
  have "(tr0 @ [RasterClose], res) = (tr, Inr table)"
    using assms v s d u lp by (simp add: calculate_flood_area_by_village_def Let_def)
  then have e: "tr = tr0 @ [RasterClose]" "res = Inr table" by simp_all
  from villages_loop_Inr [OF lp [unfolded e(2)]]
  have "tr0 = [ReadFile vp, RasterOpen rp, RasterRead 1] @ map MaskCall [0..<length villages]"
    and "length table = length villages"
    and "\<forall>k < length villages. village_result rnd str_of src ts pa sf k (villages ! k) = Inr (table ! k)"
    by simp_all
  then show ?thesis using v s d u e(1) by simp
qed

section \<open>Cell counts\<close>

lemma np_sum_mask: "np_sum (mask_where p g) = length (filter p (concat g))"
  by (induction g) (simp_all add: np_sum_def mask_where_def filter_map comp_def)

lemma np_sum_all: "np_sum (mask_where (\<lambda>c. 0 \<le> c) g) = cell_count (g :: nat grid)"
  by (simp add: np_sum_mask cell_count_def)

lemma np_sum_positive:
  "np_sum (mask_where (\<lambda>c. 0 < c) g) = cell_count g - category_count g 0"
proof -
  have "length (filter (\<lambda>c. 0 < c) (concat g)) + length (filter (\<lambda>c. \<not> 0 < c) (concat g)) =
        length (concat g)"
    by (rule sum_length_filter_compl)
  then show ?thesis by (simp add: np_sum_mask cell_count_def category_count_def)
qed

lemma category_count_le: "category_count g k \<le> cell_count g"
  by (simp add: category_count_def np_sum_mask cell_count_def)

lemma cell_count_same_shape: "same_shape g h \<Longrightarrow> cell_count g = cell_count h"
  by (simp add: cell_count_def length_concat same_shape_def)

lemma filter_eq_partition:
  "\<forall>c \<in> set xs. c \<le> m \<Longrightarrow> (\<Sum>k\<le>m. length (filter (\<lambda>c. c = k) xs)) = length (xs :: nat list)"
proof (induction xs)
  case Nil
  then show ?case by simp
next
  case (Cons x xs)
  have "(\<Sum>k\<le>m. length (filter (\<lambda>c. c = k) (x # xs))) =
        (\<Sum>k\<le>m. (if x = k then 1 else 0) + length (filter (\<lambda>c. c = k) xs))"
    by (intro sum.cong) auto
  also have "\<dots> = (\<Sum>k\<le>m. if x = k then 1 else 0) + (\<Sum>k\<le>m. length (filter (\<lambda>c. c = k) xs))"
    by (simp add: sum.distrib)
  also have "(\<Sum>k\<le>m. if x = k then 1 else 0) = (1::nat)"
    using Cons.prems by simp
  finally show ?case using Cons by simp
qed

lemma category_counts_partition:
  assumes "\<forall>row \<in> set g. \<forall>c \<in> set row. c \<le> Suc n"
  shows "category_count g 0 + sum_list (map (\<lambda>j. category_count g (j + 1)) [0..<Suc n]) = cell_count g"
proof -
  have "\<forall>c \<in> set (concat g). c \<le> Suc n" using assms by auto
  then have "(\<Sum>k\<le>Suc n. category_count g k) = cell_count g"
    using filter_eq_partition [of "concat g" "Suc n"]
    by (simp add: category_count_def np_sum_mask cell_count_def)
  moreover have "(\<Sum>k\<le>Suc n. category_count g k) =
      category_count g 0 + (\<Sum>j\<le>n. category_count g (Suc j))"
    by (rule sum.atMost_Suc_shift)
  moreover have "sum_list (map (\<lambda>j. category_count g (j + 1)) [0..<Suc n]) =
      (\<Sum>j\<le>n. category_count g (Suc j))"
    by (simp add: interv_sum_list_conv_sum_set_nat atLeast0AtMost atLeastLessThanSuc_atLeastAtMost del: upt_Suc)
  ultimately show ?thesis by simp
qed

lemma classify_flood_depth_Inr:
  assumes "classify_flood_depth to_dtype depth_array (Some ts) = Inr cg"
  shows "ts \<noteq> [] \<and> same_shape cg depth_array \<and>
         (\<forall>row \<in> set cg. \<forall>v \<in> set row. v \<le> length ts + 1)"
proof -
  have ne: "ts \<noteq> []" using assms by (auto simp: classify_flood_depth_empty)
  have cne: "map to_dtype ts \<noteq> []" using ne by simp
  from classify_flood_depth_cells [OF ne, of to_dtype depth_array] assms
  have sh: "same_shape cg depth_array"
    and cells: "\<And>r c. r < length depth_array \<Longrightarrow> c < length (depth_array ! r) \<Longrightarrow>
                  cg ! r ! c = classify_cell (map to_dtype ts) (depth_array ! r ! c)"
    by auto
  have rng: "v \<le> length ts + 1" if "row \<in> set cg" "v \<in> set row" for row v
  proof -
    from that(1) obtain r where r: "r < length cg" "cg ! r = row"
      unfolding in_set_conv_nth by blast
    from that(2) obtain c where c: "c < length row" "row ! c = v"
      unfolding in_set_conv_nth by blast
    have lr: "r < length depth_array" using r(1) same_shape_length [OF sh] by simp
    have "length (cg ! r) = length (depth_array ! r)" by (rule same_shape_row [OF sh r(1)])
    then have lc: "c < length (depth_array ! r)" using c(1) r(2) by simp
    have "cg ! r ! c = classify_cell (map to_dtype ts) (depth_array ! r ! c)"
      by (rule cells [OF lr lc])
    then have "v = classify_cell (map to_dtype ts) (depth_array ! r ! c)" using r(2) c(2) by simp
    then show ?thesis using classify_cell_range [OF cne, of "depth_array ! r ! c"] by simp
  qed
  show ?thesis using ne sh rng by blast
qed

section \<open>The fields of a row and their keys\<close>

lemma add_band_counts_keys:
  "drop i ts = rest \<Longrightarrow>
   map fst (add_band_counts str_of ts g i rest d) =
   foldl key_add (map fst d) (map (band_label str_of ts) [i..<length ts])"
proof (induction rest arbitrary: i d)
  case Nil
  then show ?case by simp
next
  case (Cons t rest)
  have n: "i < length ts" "drop (Suc i) ts = rest"
    using drop_Cons_nth [OF Cons.prems] by simp_all
  have u: "[i..<length ts] = i # [Suc i..<length ts]" using n(1) by (rule upt_conv_Cons)
  show ?case
    unfolding u using Cons.IH [OF n(2)] by (simp add: keys_dict_set)
qed

lemma count_fields_keys:
  "map fst (count_fields str_of ts g) = keys_after (inserted_labels str_of ts)"
proof -
  have s: "key_add (key_add [] ''total_area'') ''no_flood_area'' = [''total_area'', ''no_flood_area'']"
    by (simp add: key_add_def)
  have "map fst (add_band_counts str_of ts g 0 ts
          [(''total_area'', np_sum (mask_where (\<lambda>c. 0 \<le> c) g)), (''no_flood_area'', category_count g 0)]) =
        foldl key_add [''total_area'', ''no_flood_area''] (map (band_label str_of ts) [0..<length ts])"
    using add_band_counts_keys [of 0 ts ts str_of g] by simp
  then show ?thesis
    by (simp add: count_fields_def keys_dict_set keys_after_def inserted_labels_def band_labels_def s)
qed

lemma dict_set_fresh_keys:
  "k \<notin> set (map fst d) \<Longrightarrow> dict_set k v d = d @ [(k, v)]"
  by (rule dict_set_fresh) simp

lemma add_band_counts_fresh:
  "drop i ts = rest \<Longrightarrow>
   distinct (map fst d @ map (band_label str_of ts) [i..<length ts]) \<Longrightarrow>
   add_band_counts str_of ts g i rest d =
   d @ map (\<lambda>j. (band_label str_of ts j, category_count g (j + 1))) [i..<length ts]"
proof (induction rest arbitrary: i d)
  case Nil
  then show ?case by simp
next
  case (Cons t rest)
  have n: "i < length ts" "drop (Suc i) ts = rest"
    using drop_Cons_nth [OF Cons.prems(1)] by simp_all
  have u: "[i..<length ts] = i # [Suc i..<length ts]" using n(1) by (rule upt_conv_Cons)
  have dist: "distinct (map fst d @ band_label str_of ts i # map (band_label str_of ts) [Suc i..<length ts])"
    using Cons.prems(2) unfolding u by simp
  have fresh: "band_label str_of ts i \<notin> fst ` set d" using dist by auto
  have dist': "distinct (map fst (d @ [(band_label str_of ts i, category_count g (i + 1))])
                 @ map (band_label str_of ts) [Suc i..<length ts])"
    using dist by auto
  show ?case
    unfolding u using Cons.IH [OF n(2) dist'] by (simp add: dict_set_fresh [OF fresh])
qed

lemma band_labels_end:
  "l \<in> set (band_labels str_of ts) \<Longrightarrow> l \<noteq> [] \<and> last l = CHR ''m''"
  by (auto simp: band_labels_def band_label_def last_label_def)

lemma inserted_labels_distinct:
  assumes "distinct (band_labels str_of ts)"
  shows "distinct (inserted_labels str_of ts)"
proof -
  have "''total_area'' \<notin> set (band_labels str_of ts)"
    "''no_flood_area'' \<notin> set (band_labels str_of ts)"
    "''total_flooded_area'' \<notin> set (band_labels str_of ts)"
    using band_labels_end [of _ str_of ts] by fastforce+
  then show ?thesis using assms by (simp add: inserted_labels_def)
qed

lemma count_fields_distinct:
  assumes "distinct (band_labels str_of ts)"
  shows "count_fields str_of ts g =
     [(''total_area'', cell_count g), (''no_flood_area'', category_count g 0)]
     @ map (\<lambda>j. (band_label str_of ts j, category_count g (j + 1))) [0..<length ts]
     @ [(last_label str_of ts, category_count g (length ts + 1)),
        (''total_flooded_area'', cell_count g - category_count g 0)]"
proof -
  let ?d0 = "[(''total_area'', cell_count g), (''no_flood_area'', category_count g 0)]"
  let ?bands = "map (\<lambda>j. (band_label str_of ts j, category_count g (j + 1))) [0..<length ts]"
  have dist: "distinct (inserted_labels str_of ts)" by (rule inserted_labels_distinct [OF assms])
  have d1: "distinct (map fst ?d0 @ map (band_label str_of ts) [0..<length ts])"
    using dist by (simp add: inserted_labels_def band_labels_def)
  have loop: "add_band_counts str_of ts g 0 ts ?d0 = ?d0 @ ?bands"
    by (rule add_band_counts_fresh [OF _ d1]) simp
  have keys: "map fst (?d0 @ ?bands) =
      [''total_area'', ''no_flood_area''] @ map (band_label str_of ts) [0..<length ts]"
    by (simp add: comp_def)
  have f1: "last_label str_of ts \<notin> set (map fst (?d0 @ ?bands))"
  proof -
    have "last_label str_of ts \<notin>
        set ([''total_area'', ''no_flood_area''] @ map (band_label str_of ts) [0..<length ts])"
      using dist by (auto simp: inserted_labels_def band_labels_def)
    then show ?thesis unfolding keys .
  qed
  have f2: "''total_flooded_area'' \<notin>
      set (map fst ((?d0 @ ?bands) @ [(last_label str_of ts, category_count g (length ts + 1))]))"
  proof -
    have "''total_flooded_area'' \<notin>
        set (([''total_area'', ''no_flood_area''] @ map (band_label str_of ts) [0..<length ts])
             @ [last_label str_of ts])"
      using dist by (auto simp: inserted_labels_def band_labels_def)
    then show ?thesis unfolding map_append keys by simp
  qed
  show ?thesis
    unfolding count_fields_def np_sum_all np_sum_positive loop
      dict_set_fresh_keys [OF f1] dict_set_fresh_keys [OF f2]
    by simp
qed

lemma keys_after_distinct:
  "distinct ks \<Longrightarrow> set pre \<inter> set ks = {} \<Longrightarrow> foldl key_add pre ks = pre @ ks"
proof (induction ks arbitrary: pre)
  case Nil
  then show ?case by simp
next
  case (Cons k ks)
  have "key_add pre k = pre @ [k]" using Cons.prems by (simp add: key_add_def)
  moreover have "set (pre @ [k]) \<inter> set ks = {}" "distinct ks" using Cons.prems by auto
  ultimately show ?case using Cons.IH [of "pre @ [k]"] by simp
qed

lemma count_fields_member:
  assumes "(k, n) \<in> set (count_fields str_of ts g)"
  shows "n \<le> cell_count g"
proof -
  have loop: "(k, n) \<in> set (add_band_counts str_of ts g i rest d) \<Longrightarrow>
      (k, n) \<in> set d \<or> n \<le> cell_count g" for i rest d
  proof (induction rest arbitrary: i d)
    case Nil
    then show ?case by simp
  next
    case (Cons t rest)
    from Cons.IH [of "Suc i" "dict_set (band_label str_of ts i) (category_count g (i + 1)) d"] Cons.prems
    have "(k, n) \<in> set (dict_set (band_label str_of ts i) (category_count g (i + 1)) d) \<or> n \<le> cell_count g"
      by simp
    then show ?case using dict_set_member [of k n] category_count_le [of g] by metis
  qed
  have a: "np_sum (mask_where (\<lambda>c. 0 < c) g) \<le> cell_count g"
    "np_sum (mask_where (\<lambda>c. 0 \<le> c) g) \<le> cell_count g"
    by (simp_all add: np_sum_mask cell_count_def)
  from assms have "n = np_sum (mask_where (\<lambda>c. 0 < c) g) \<or>
      (k, n) \<in> set (dict_set (last_label str_of ts) (category_count g (length ts + 1))
          (add_band_counts str_of ts g 0 ts
             [(''total_area'', np_sum (mask_where (\<lambda>c. 0 \<le> c) g)),
              (''no_flood_area'', category_count g 0)]))"
    unfolding count_fields_def using dict_set_member by metis
  then have "n \<le> cell_count g \<or>
      (k, n) \<in> set (add_band_counts str_of ts g 0 ts
             [(''total_area'', np_sum (mask_where (\<lambda>c. 0 \<le> c) g)),
              (''no_flood_area'', category_count g 0)])"
    using a(1) dict_set_member [of k n] category_count_le [of g] by metis
  then have "n \<le> cell_count g \<or>
      (k, n) \<in> set [(''total_area'', np_sum (mask_where (\<lambda>c. 0 \<le> c) g)),
              (''no_flood_area'', category_count g 0)]"
    using loop by blast
  then show ?thesis using a(2) category_count_le [of g 0] by auto
qed

section \<open>Properties of the classifier\<close>

lemma classify_flood_depth_default:
  "classify_flood_depth to_dtype depth_array None =
   classify_flood_depth to_dtype depth_array (Some default_thresholds)"
  by (simp add: classify_flood_depth_def)

lemma fl_gt_not_lt: "fl_gt x y \<Longrightarrow> \<not> fl_lt x y"
  unfolding fl_gt_def using fl_lt_trans fl_lt_irrefl by blast

lemma sample_float32_nearest:
  "nearest_binary 24 (3602879701896397 / 36028797018963968) 13421773 27 \<and>
   sample_float32 (Fin (3602879701896397 / 36028797018963968)) = Fin (13421773 / 2 ^ 27) \<and>
   sample_float32 (Fin (1/4)) = Fin (1/4)"
  by (simp add: nearest_binary_def sample_float32_def)

text \<open>
  C1, as amended. The thresholds enter the comparisons converted to the dtype of the
  depth grid (\<open>map to_dtype ts\<close>; for a float64 grid the conversion changes nothing). For
  every depth grid and every non-empty threshold list (n thresholds) whose converted
  thresholds are strictly ascending with the first one above 0, the classifier returns a
  grid of the same shape in which every cell has one category, at most n+1: category 0
  when the depth equals 0, category i+1 exactly when the depth passes the test of band i
  of the converted thresholds (above the previous threshold, or above 0 for the first
  band, and at most threshold i), category n+1 exactly when the depth is above the last
  converted threshold; a depth equal to the converted threshold i is in band i, the band
  below it.
\<close>

theorem classify_flood_depth_bands:
  assumes "ts \<noteq> []" "strictly_ascending (map to_dtype ts)" "fl_gt (to_dtype (ts ! 0)) (Fin 0)"
  shows "\<exists>cg. classify_flood_depth to_dtype depth_array (Some ts) = Inr cg \<and>
     same_shape cg depth_array \<and>
     (\<forall>r c. r < length depth_array \<and> c < length (depth_array ! r) \<longrightarrow>
        cg ! r ! c \<le> length ts + 1 \<and>
        (fl_eq (depth_array ! r ! c) (Fin 0) \<longrightarrow> cg ! r ! c = 0) \<and>
        (\<forall>i < length ts. (cg ! r ! c = i + 1) = in_band (map to_dtype ts) i (depth_array ! r ! c)) \<and>
        ((cg ! r ! c = length ts + 1) = above_last (map to_dtype ts) (depth_array ! r ! c)) \<and>
        (\<forall>i < length ts. fl_eq (depth_array ! r ! c) (to_dtype (ts ! i)) \<longrightarrow> cg ! r ! c = i + 1))"
proof -
  define cts where "cts = map to_dtype ts"
  have ne: "cts \<noteq> []" using assms(1) by (simp add: cts_def)
  have len: "length cts = length ts" by (simp add: cts_def)
  have asc: "strictly_ascending cts" using assms(2) by (simp add: cts_def)
  have nth: "cts ! i = to_dtype (ts ! i)" if "i < length ts" for i
    using that by (simp add: cts_def)
  have pos: "fl_gt (cts ! 0) (Fin 0)" using assms(1,3) nth [of 0] by simp
  from classify_flood_depth_cells [OF assms(1), of to_dtype depth_array]
  obtain cg where res: "classify_flood_depth to_dtype depth_array (Some ts) = Inr cg"
    and sh: "same_shape cg depth_array"
    and cells: "\<And>r c. r < length depth_array \<Longrightarrow> c < length (depth_array ! r) \<Longrightarrow>
                  cg ! r ! c = classify_cell cts (depth_array ! r ! c)"
    unfolding cts_def by blast
  have nn: "\<not> fl_lt (cts ! 0) (Fin 0)" by (rule fl_gt_not_lt [OF pos])
  have "cg ! r ! c \<le> length ts + 1 \<and>
        (fl_eq (depth_array ! r ! c) (Fin 0) \<longrightarrow> cg ! r ! c = 0) \<and>
        (\<forall>i < length ts. (cg ! r ! c = i + 1) = in_band cts i (depth_array ! r ! c)) \<and>
        ((cg ! r ! c = length ts + 1) = above_last cts (depth_array ! r ! c)) \<and>
        (\<forall>i < length ts. fl_eq (depth_array ! r ! c) (to_dtype (ts ! i)) \<longrightarrow> cg ! r ! c = i + 1)"
    if rc: "r < length depth_array" "c < length (depth_array ! r)" for r c
  proof -
    let ?d = "depth_array ! r ! c"
    have e: "cg ! r ! c = classify_cell cts ?d" by (rule cells [OF rc])
    have 1: "classify_cell cts ?d \<le> length ts + 1"
      using classify_cell_range [OF ne, of ?d] len by simp
    have 2: "fl_eq ?d (Fin 0) \<longrightarrow> classify_cell cts ?d = 0"
      using classify_cell_zero [OF ne asc nn] by blast
    have 3: "\<forall>i < length ts. (classify_cell cts ?d = i + 1) = in_band cts i ?d"
      using classify_cell_band [OF ne asc] len by simp
    have 4: "(classify_cell cts ?d = length ts + 1) = above_last cts ?d"
      using classify_cell_last [OF ne, of ?d] len by simp
    have 5: "\<forall>i < length ts. fl_eq ?d (to_dtype (ts ! i)) \<longrightarrow> classify_cell cts ?d = i + 1"
      using classify_cell_at_threshold [OF ne asc pos] len nth by simp
    show ?thesis unfolding e using 1 2 3 4 5 by blast
  qed
  then show ?thesis using res sh unfolding cts_def by blast
qed

theorem classify_flood_depth_bands_witness:
  "[Fin (1/2), Fin 1] \<noteq> [] \<and> strictly_ascending (map (\<lambda>t. t) [Fin (1/2), Fin 1]) \<and>
   fl_gt ((\<lambda>t. t) ([Fin (1/2), Fin 1] ! 0)) (Fin 0) \<and>
   (\<exists>cg. classify_flood_depth (\<lambda>t. t) [[Fin 0, Fin (1/2), Fin 3]] (Some [Fin (1/2), Fin 1]) = Inr cg \<and>
      same_shape cg [[Fin 0, Fin (1/2), Fin 3]] \<and>
      cg ! 0 ! 0 = 0 \<and> cg ! 0 ! 1 = 1 \<and> cg ! 0 ! 2 = 3)"
proof -
  let ?ts = "[Fin (1/2), Fin 1]"
  let ?depth = "[[Fin 0, Fin (1/2), Fin 3]]"
  let ?id = "\<lambda>t::fl. t"
  have h1: "?ts \<noteq> []" by simp
  have h2: "strictly_ascending (map ?id ?ts)" by simp
  have h3: "fl_gt (?id (?ts ! 0)) (Fin 0)" by (simp add: fl_gt_def)
  from classify_flood_depth_bands [OF h1 h2 h3, of ?depth]
  obtain cg where res: "classify_flood_depth ?id ?depth (Some ?ts) = Inr cg"
    and sh: "same_shape cg ?depth"
    and cells: "\<forall>r c. r < length ?depth \<and> c < length (?depth ! r) \<longrightarrow>
        cg ! r ! c \<le> length ?ts + 1 \<and>
        (fl_eq (?depth ! r ! c) (Fin 0) \<longrightarrow> cg ! r ! c = 0) \<and>
        (\<forall>i < length ?ts. (cg ! r ! c = i + 1) = in_band (map ?id ?ts) i (?depth ! r ! c)) \<and>
        ((cg ! r ! c = length ?ts + 1) = above_last (map ?id ?ts) (?depth ! r ! c)) \<and>
        (\<forall>i < length ?ts. fl_eq (?depth ! r ! c) (?id (?ts ! i)) \<longrightarrow> cg ! r ! c = i + 1)"
    by blast
  have p0: "0 < length ?depth \<and> 0 < length (?depth ! 0)" by simp
  have p1: "0 < length ?depth \<and> 1 < length (?depth ! 0)" by simp
  have p2: "0 < length ?depth \<and> 2 < length (?depth ! 0)" by simp
  from cells [rule_format, OF p0]
  have "fl_eq (?depth ! 0 ! 0) (Fin 0) \<longrightarrow> cg ! 0 ! 0 = 0" by blast
  then have c0: "cg ! 0 ! 0 = 0" by simp
  from cells [rule_format, OF p1]
  have "\<forall>i < length ?ts. (cg ! 0 ! 1 = i + 1) = in_band (map ?id ?ts) i (?depth ! 0 ! 1)" by blast
  then have "(cg ! 0 ! 1 = 0 + 1) = in_band (map ?id ?ts) 0 (?depth ! 0 ! 1)"
    by (elim allE [of _ 0]) simp
  then have c1: "cg ! 0 ! 1 = 1" by (simp add: in_band_def fl_gt_def)
  from cells [rule_format, OF p2]
  have "(cg ! 0 ! 2 = length ?ts + 1) = above_last (map ?id ?ts) (?depth ! 0 ! 2)" by blast
  then have c2: "cg ! 0 ! 2 = 3" by (simp add: above_last_def fl_gt_def)
  show ?thesis using h1 h2 h3 res sh c0 c1 c2 by blast
qed

text \<open>
  C1, as stated, fails in two ways. For a strictly ascending list with a negative
  threshold: with the thresholds -1 and 2 on a float64 grid, a cell of depth 0 passes the
  test of the second band and gets category 2, not category 0. For a float32 grid: with
  the thresholds 0.1 and 0.25, the cell holding the float32 number nearest to 0.1, which
  is above the binary64 threshold 0.1 and at most 0.25, gets category 1, not category 2,
  because the threshold is rounded to float32 before the comparison.
\<close>

theorem classify_flood_depth_negative_threshold:
  "([Fin (- 1), Fin 2] \<noteq> [] \<and> strictly_ascending [Fin (- 1), Fin 2] \<and>
    fl_eq (Fin 0) (Fin 0) \<and>
    classify_flood_depth (\<lambda>t. t) [[Fin 0]] (Some [Fin (- 1), Fin 2]) = Inr [[2]]) \<and>
   (strictly_ascending [Fin (3602879701896397 / 36028797018963968), Fin (1/4)] \<and>
    fl_lt (Fin (3602879701896397 / 36028797018963968)) (Fin (13421773 / 134217728)) \<and>
    fl_le (Fin (13421773 / 134217728)) (Fin (1/4)) \<and>
    classify_flood_depth sample_float32 [[Fin (13421773 / 134217728)]]
      (Some [Fin (3602879701896397 / 36028797018963968), Fin (1/4)]) = Inr [[1]])"
  by (simp add: classify_flood_depth_def zeros_like_def mask_where_def assign_where_def fl_gt_def
      sample_float32_def)

text \<open>
  C3. Called with a non-empty threshold list the classifier returns a grid, and every
  grid it returns has the shape of the depth grid and only values from 0 to
  \<open>len(thresholds) + 1\<close>, whatever the dtype of the depth grid.
\<close>

theorem classify_flood_depth_shape_and_range:
  "(ts \<noteq> [] \<longrightarrow> (\<exists>cg. classify_flood_depth to_dtype depth_array (Some ts) = Inr cg)) \<and>
   (\<forall>cg. classify_flood_depth to_dtype depth_array (Some ts) = Inr cg \<longrightarrow>
      same_shape cg depth_array \<and> (\<forall>row \<in> set cg. \<forall>v \<in> set row. v \<le> length ts + 1))"
proof -
  have ex: "\<exists>cg. classify_flood_depth to_dtype depth_array (Some ts) = Inr cg" if "ts \<noteq> []"
    using classify_flood_depth_cells [OF that, of to_dtype depth_array] by blast
  have props: "same_shape cg depth_array \<and> (\<forall>row \<in> set cg. \<forall>v \<in> set row. v \<le> length ts + 1)"
    if "classify_flood_depth to_dtype depth_array (Some ts) = Inr cg" for cg
    using classify_flood_depth_Inr [OF that] by blast
  show ?thesis using ex props by blast
qed

theorem classify_flood_depth_shape_and_range_witness:
  "[Fin (1/2)] \<noteq> [] \<and>
   (\<exists>cg. classify_flood_depth (\<lambda>t. t) [[Fin 1, NaN]] (Some [Fin (1/2)]) = Inr cg \<and>
      same_shape cg [[Fin 1, NaN]] \<and> cg ! 0 ! 0 \<le> 2 \<and> cg ! 0 ! 1 \<le> 2)"
proof -
  let ?ts = "[Fin (1/2)]"
  let ?depth = "[[Fin 1, NaN]]"
  let ?id = "\<lambda>t::fl. t"
  have h: "?ts \<noteq> []" by simp
  from classify_flood_depth_shape_and_range [of ?ts ?id ?depth] h
  obtain cg where res: "classify_flood_depth ?id ?depth (Some ?ts) = Inr cg" by blast
  from classify_flood_depth_shape_and_range [of ?ts ?id ?depth] res
  have sh: "same_shape cg ?depth" and rng: "\<forall>row \<in> set cg. \<forall>v \<in> set row. v \<le> length ?ts + 1"
    by blast+
  have l: "length cg = 1" "length (cg ! 0) = 2"
    using same_shape_length [OF sh] same_shape_row [OF sh, of 0] by simp_all
  have "cg ! 0 \<in> set cg" using l(1) by simp
  moreover have "cg ! 0 ! 0 \<in> set (cg ! 0)" "cg ! 0 ! 1 \<in> set (cg ! 0)" using l(2) by simp_all
  ultimately have "cg ! 0 ! 0 \<le> 2" "cg ! 0 ! 1 \<le> 2" using rng by fastforce+
  then show ?thesis using res sh by simp
qed

text \<open>
  C4, as amended. In the grid returned for a non-empty threshold list, a cell whose depth
  is NaN has category 0; a cell has a category other than 0 only when its depth passes
  the test of one of the bands or is above the last threshold, and NaN passes none of
  these tests. A cell of negative depth has category 0 when no threshold, converted to
  the dtype of the grid, is negative.
\<close>

theorem classify_flood_depth_unclassified:
  assumes "ts \<noteq> []" "r < length depth_array" "c < length (depth_array ! r)"
  shows "\<exists>cg. classify_flood_depth to_dtype depth_array (Some ts) = Inr cg \<and>
     (depth_array ! r ! c = NaN \<longrightarrow> cg ! r ! c = 0) \<and>
     (fl_lt (depth_array ! r ! c) (Fin 0) \<and> (\<forall>t \<in> set ts. \<not> fl_lt (to_dtype t) (Fin 0)) \<longrightarrow>
        cg ! r ! c = 0) \<and>
     (cg ! r ! c \<noteq> 0 \<longrightarrow>
        (\<exists>i < length ts. in_band (map to_dtype ts) i (depth_array ! r ! c)) \<or>
        above_last (map to_dtype ts) (depth_array ! r ! c)) \<and>
     (\<forall>i. \<not> in_band (map to_dtype ts) i NaN) \<and> \<not> above_last (map to_dtype ts) NaN"
proof -
  let ?d = "depth_array ! r ! c"
  define cts where "cts = map to_dtype ts"
  have ne: "cts \<noteq> []" using assms(1) by (simp add: cts_def)
  have len: "length cts = length ts" by (simp add: cts_def)
  have neg: "(\<forall>t \<in> set ts. \<not> fl_lt (to_dtype t) (Fin 0)) = (\<forall>t \<in> set cts. \<not> fl_lt t (Fin 0))"
    by (simp add: cts_def)
  from classify_flood_depth_cells [OF assms(1), of to_dtype depth_array]
  obtain cg where res: "classify_flood_depth to_dtype depth_array (Some ts) = Inr cg"
    and cells: "\<And>r c. r < length depth_array \<Longrightarrow> c < length (depth_array ! r) \<Longrightarrow>
                  cg ! r ! c = classify_cell cts (depth_array ! r ! c)"
    unfolding cts_def by blast
  have e: "cg ! r ! c = classify_cell cts ?d" by (rule cells [OF assms(2,3)])
  have cs: "(above_last cts ?d \<and> classify_cell cts ?d = length cts + 1) \<or>
         (\<not> above_last cts ?d \<and> classify_cell cts ?d = 0) \<or>
         (\<not> above_last cts ?d \<and> (\<exists>j < length cts. in_band cts j ?d \<and> classify_cell cts ?d = j + 1))"
    by (rule classify_cell_cases [OF ne])
  have 1: "?d = NaN \<longrightarrow> classify_cell cts ?d = 0"
    using cs NaN_in_no_band NaN_not_above by auto
  have 2: "fl_lt ?d (Fin 0) \<and> (\<forall>t \<in> set ts. \<not> fl_lt (to_dtype t) (Fin 0)) \<longrightarrow> classify_cell cts ?d = 0"
    unfolding neg using cs negative_in_no_band [of cts ?d] negative_not_above [OF ne, of ?d] by blast
  have 3: "classify_cell cts ?d \<noteq> 0 \<longrightarrow> (\<exists>i < length ts. in_band cts i ?d) \<or> above_last cts ?d"
    using cs len by auto
  have 4: "\<forall>i. \<not> in_band cts i NaN" by (simp add: NaN_in_no_band)
  have 5: "\<not> above_last cts NaN" by (simp add: NaN_not_above)
  have "(?d = NaN \<longrightarrow> cg ! r ! c = 0) \<and>
     (fl_lt ?d (Fin 0) \<and> (\<forall>t \<in> set ts. \<not> fl_lt (to_dtype t) (Fin 0)) \<longrightarrow> cg ! r ! c = 0) \<and>
     (cg ! r ! c \<noteq> 0 \<longrightarrow> (\<exists>i < length ts. in_band cts i ?d) \<or> above_last cts ?d) \<and>
     (\<forall>i. \<not> in_band cts i NaN) \<and> \<not> above_last cts NaN"
    unfolding e by (intro conjI) (rule 1 2 3 4 5)+
  then show ?thesis using res unfolding cts_def by blast
qed

theorem classify_flood_depth_unclassified_witness:
  "[Fin (1/2), Fin 1] \<noteq> [] \<and>
   (\<exists>cg. classify_flood_depth (\<lambda>t. t) [[NaN, Fin (- 1), Fin (3/4)]] (Some [Fin (1/2), Fin 1]) = Inr cg \<and>
      cg ! 0 ! 0 = 0 \<and> cg ! 0 ! 1 = 0 \<and> cg ! 0 ! 2 = 2 \<and>
      in_band [Fin (1/2), Fin 1] 1 (Fin (3/4)))"
proof -
  let ?ts = "[Fin (1/2), Fin 1]"
  let ?depth = "[[NaN, Fin (- 1), Fin (3/4)]]"
  let ?id = "\<lambda>t::fl. t"
  have h: "?ts \<noteq> []" by simp
  have r: "0 < length ?depth" by simp
  have c0: "0 < length (?depth ! 0)" and c1: "1 < length (?depth ! 0)" by simp_all
  from classify_flood_depth_unclassified [OF h r c0, of ?id]
  obtain cg where res: "classify_flood_depth ?id ?depth (Some ?ts) = Inr cg" and z0: "cg ! 0 ! 0 = 0"
    by auto
  from classify_flood_depth_unclassified [OF h r c1, of ?id] res
  have z1: "cg ! 0 ! 1 = 0" by auto
  have "classify_flood_depth ?id ?depth (Some ?ts) = Inr [[0, 0, 2]]"
    by (simp add: classify_flood_depth_def zeros_like_def mask_where_def assign_where_def fl_gt_def)
  then have z2: "cg ! 0 ! 2 = 2" using res by simp
  have b: "in_band ?ts 1 (Fin (3/4))" by (simp add: in_band_def fl_gt_def)
  show ?thesis using h res z0 z1 z2 b by blast
qed

text \<open>
  C4, as stated, fails for a negative depth when a threshold is negative: with the single
  threshold -1 on a float64 grid, a cell of depth -0.5 is above the last threshold and
  gets category 2, not category 0.
\<close>

theorem classify_flood_depth_negative_depth:
  "fl_lt (Fin (- 1/2)) (Fin 0) \<and>
   classify_flood_depth (\<lambda>t. t) [[Fin (- 1/2)]] (Some [Fin (- 1)]) = Inr [[2]]"
  by (simp add: classify_flood_depth_def zeros_like_def mask_where_def assign_where_def fl_gt_def)

text \<open>
  C10. With an empty threshold list the classifier raises IndexError and returns no grid:
  the loop over the thresholds leaves the array as it is, and the read of the last
  threshold fails.
\<close>

theorem classify_flood_depth_empty_thresholds:
  "classify_flood_depth to_dtype depth_array (Some []) = Inl IndexError \<and>
   classify_loop to_dtype depth_array [] 0 [] classified = classified"
  by (simp add: classify_flood_depth_def)

section \<open>Properties of the aggregator\<close>

lemma village_result_shape:
  assumes "unit_suffix_ok s" "village_result rnd str_of src ts pa s idx v = Inr row"
  shows "\<exists>band others mt g. mask src [geometry v] = Inr (band # others, mt) \<and>
           classify_flood_depth (dtype src) band (Some ts) = Inr g \<and>
           row = [(''village_id'', series_get v ''ADM3_EN'' (PyInt (int idx))),
                  (''village_name'', series_get v ''ADM3_TH'' (PyStr (''Village_'' @ str_of_nat idx)))]
                 @ map (area_field rnd s pa) (count_fields str_of ts g)"
proof -
  from village_result_Inr [OF assms(2)]
  obtain band others mt g where m: "mask src [geometry v] = Inr (band # others, mt)"
    and c: "classify_flood_depth (dtype src) band (Some ts) = Inr g" by blast
  from village_result_row [OF assms(1) m c, of rnd str_of pa idx] assms(2) m c
  show ?thesis by simp
qed

lemma calculate_default:
  "calculate_flood_area_by_village rnd e str_of rp vp None unit =
   calculate_flood_area_by_village rnd e str_of rp vp (Some default_thresholds) unit"
  by (simp add: calculate_flood_area_by_village_def)

lemma calculate_unknown_unit:
  assumes "spec_unit_divisor unit = None"
  shows "(\<forall>table. snd (calculate_flood_area_by_village rnd e str_of rp vp thr unit) \<noteq> Inr table) \<and>
         (\<forall>k. MaskCall k \<notin> set (fst (calculate_flood_area_by_village rnd e str_of rp vp thr unit))) \<and>
         (\<forall>villages src flood_data.
            read_file e vp = Inr villages \<and> rasterio_open e rp = Inr src \<and>
            read_band src 1 = Inr flood_data \<longrightarrow>
            calculate_flood_area_by_village rnd e str_of rp vp thr unit =
              ([ReadFile vp, RasterOpen rp, RasterRead 1, RasterClose],
               Inl (ValueError unit_error_message)))"
  using resolve_unit_unknown [OF assms]
  by (auto simp: calculate_flood_area_by_village_def Let_def split: sum.splits)

lemmas sample_run =
  calculate_flood_area_by_village_def sample_env_def outside_env_def sample_raster_def
  sample_villages_def sample_mask_def sample_transform_def sample_str_def resolve_unit_def
  village_result_def classify_flood_depth_def zeros_like_def mask_where_def assign_where_def
  np_sum_def fl_gt_def series_get_def digit_char_def unit_error_message_def quoted_def
  int_mul_float_def sample_round_def

lemmas seven_run =
  sample_run seven_env_def seven_raster_def seven_mask_def seven_cells_def

text \<open>
  C5, as amended. Called with a unit outside m2, km2, hectare and rai, the function
  returns no table and clips no polygon; it raises ValueError, with the message that
  lists the four units, after the boundary file has been read, the raster opened and its
  first band read.
\<close>

theorem unknown_unit_raises_after_reading:
  assumes "unit \<notin> {''m2'', ''km2'', ''hectare'', ''rai''}"
  shows "(\<forall>table. snd (calculate_flood_area_by_village rnd e str_of rp vp thr unit) \<noteq> Inr table) \<and>
         (\<forall>k. MaskCall k \<notin> set (fst (calculate_flood_area_by_village rnd e str_of rp vp thr unit))) \<and>
         (\<forall>villages src flood_data.
            read_file e vp = Inr villages \<and> rasterio_open e rp = Inr src \<and>
            read_band src 1 = Inr flood_data \<longrightarrow>
            calculate_flood_area_by_village rnd e str_of rp vp thr unit =
              ([ReadFile vp, RasterOpen rp, RasterRead 1, RasterClose],
               Inl (ValueError unit_error_message)))"
proof -
  have "spec_unit_divisor unit = None" using assms by (simp add: spec_unit_divisor_def)
  then show ?thesis by (rule calculate_unknown_unit)
qed

theorem unknown_unit_raises_after_reading_witness:
  "''acre'' \<notin> {''m2'', ''km2'', ''hectare'', ''rai''} \<and>
   read_file sample_env ''villages.shp'' = Inr sample_villages \<and>
   rasterio_open sample_env ''flood.tif'' = Inr sample_raster \<and>
   read_band sample_raster 1 = Inr [[Fin 0, Fin (3/4)], [Fin 0, Fin 5]] \<and>
   calculate_flood_area_by_village sample_round sample_env sample_str ''flood.tif'' ''villages.shp'' None ''acre'' =
     ([ReadFile ''villages.shp'', RasterOpen ''flood.tif'', RasterRead 1, RasterClose],
      Inl (ValueError unit_error_message))"
proof -
  have h: "''acre'' \<notin> {''m2'', ''km2'', ''hectare'', ''rai''}" by simp
  have r: "read_file sample_env ''villages.shp'' = Inr sample_villages"
    "rasterio_open sample_env ''flood.tif'' = Inr sample_raster"
    "read_band sample_raster 1 = Inr [[Fin 0, Fin (3/4)], [Fin 0, Fin 5]]"
    by (simp_all add: sample_env_def sample_raster_def)
  from unknown_unit_raises_after_reading [OF h, of sample_round sample_env sample_str "''flood.tif''" "''villages.shp''" None] r
  have "calculate_flood_area_by_village sample_round sample_env sample_str ''flood.tif'' ''villages.shp'' None ''acre'' =
     ([ReadFile ''villages.shp'', RasterOpen ''flood.tif'', RasterRead 1, RasterClose],
      Inl (ValueError unit_error_message))"
    by blast
  then show ?thesis using h r by blast
qed

text \<open>
  C5, as stated, fails: with the unit \<open>sqft\<close> the error is a ValueError, and it comes
  after the first band of the raster has been read.
\<close>

theorem unknown_unit_reads_raster_first:
  "calculate_flood_area_by_village sample_round sample_env sample_str ''flood.tif'' ''villages.shp''
     (Some [Fin (1/2), Fin 1]) ''sqft'' =
     ([ReadFile ''villages.shp'', RasterOpen ''flood.tif'', RasterRead 1, RasterClose],
      Inl (ValueError unit_error_message)) \<and>
   RasterRead 1 \<in> set (fst (calculate_flood_area_by_village sample_round sample_env sample_str ''flood.tif''
     ''villages.shp'' (Some [Fin (1/2), Fin 1]) ''sqft''))"
  by (simp add: sample_run)

text \<open>
  C9. A call that returns a table returns one row per polygon, in the order of the
  polygons: row k is the result of the loop body for polygon k, it starts with the
  identifier and the name of polygon k (or the index k where the attribute is missing),
  and the polygons are clipped in that order. The result is a function of the arguments
  and of what the collaborators return.
\<close>

theorem rows_follow_polygon_order:
  assumes "calculate_flood_area_by_village rnd e str_of rp vp (Some ts) unit = (tr, Inr table)"
  shows "\<exists>villages src pa s.
     read_file e vp = Inr villages \<and> rasterio_open e rp = Inr src \<and>
     resolve_unit rnd \<bar>rnd (tr_a (transform src) * tr_e (transform src))\<bar> unit = Inr (pa, s) \<and>
     length table = length villages \<and>
     (\<forall>k < length villages.
        village_result rnd str_of src ts pa s k (villages ! k) = Inr (table ! k) \<and>
        table ! k ! 0 = (''village_id'', series_get (villages ! k) ''ADM3_EN'' (PyInt (int k))) \<and>
        table ! k ! 1 = (''village_name'',
           series_get (villages ! k) ''ADM3_TH'' (PyStr (''Village_'' @ str_of_nat k)))) \<and>
     tr = [ReadFile vp, RasterOpen rp, RasterRead 1] @ map MaskCall [0..<length villages] @ [RasterClose]"
proof -
  from calculate_Inr [OF assms]
  obtain villages src flood_data pa s where v: "read_file e vp = Inr villages"
    and o: "rasterio_open e rp = Inr src"
    and u: "resolve_unit rnd \<bar>rnd (tr_a (transform src) * tr_e (transform src))\<bar> unit = Inr (pa, s)"
    and t: "tr = [ReadFile vp, RasterOpen rp, RasterRead 1] @ map MaskCall [0..<length villages] @ [RasterClose]"
    and l: "length table = length villages"
    and rows: "\<forall>k < length villages. village_result rnd str_of src ts pa s k (villages ! k) = Inr (table ! k)"
    by blast
  have ok: "unit_suffix_ok s" using resolve_unit_Inr [OF u] by blast
  have "village_result rnd str_of src ts pa s k (villages ! k) = Inr (table ! k) \<and>
        table ! k ! 0 = (''village_id'', series_get (villages ! k) ''ADM3_EN'' (PyInt (int k))) \<and>
        table ! k ! 1 = (''village_name'',
           series_get (villages ! k) ''ADM3_TH'' (PyStr (''Village_'' @ str_of_nat k)))"
    if "k < length villages" for k
  proof -
    have r: "village_result rnd str_of src ts pa s k (villages ! k) = Inr (table ! k)"
      using rows that by blast
    from village_result_shape [OF ok r] obtain g where
      "table ! k = [(''village_id'', series_get (villages ! k) ''ADM3_EN'' (PyInt (int k))),
                  (''village_name'', series_get (villages ! k) ''ADM3_TH'' (PyStr (''Village_'' @ str_of_nat k)))]
                 @ map (area_field rnd s pa) (count_fields str_of ts g)"
      by blast
    then show ?thesis using r by simp
  qed
  then show ?thesis using v o u t l by blast
qed

theorem rows_follow_polygon_order_witness:
  "calculate_flood_area_by_village sample_round sample_env sample_str ''flood.tif'' ''villages.shp''
     (Some [Fin (1/2), Fin 1]) ''hectare'' =
     ([ReadFile ''villages.shp'', RasterOpen ''flood.tif'', RasterRead 1, MaskCall 0, MaskCall 1, RasterClose],
      Inr [[(''village_id'', PyStr ''Pathum''), (''village_name'', PyStr ''Village_0''),
            (''total_area (hectares)'', PyFloat (5764607523034235 / 2 ^ 55)), (''no_flood_area (hectares)'', PyFloat 0),
            (''0-0.5 m (hectares)'', PyFloat 0), (''0.5-1.0m (hectares)'', PyFloat (5764607523034235 / 2 ^ 55)),
            (''>1.0 m (hectares)'', PyFloat 0), (''total_flooded_area (hectares)'', PyFloat (5764607523034235 / 2 ^ 55))],
           [(''village_id'', PyInt 1), (''village_name'', PyStr ''Village_1''),
            (''total_area (hectares)'', PyFloat 0), (''no_flood_area (hectares)'', PyFloat 0),
            (''0-0.5 m (hectares)'', PyFloat 0), (''0.5-1.0m (hectares)'', PyFloat 0),
            (''>1.0 m (hectares)'', PyFloat 0), (''total_flooded_area (hectares)'', PyFloat 0)]]) \<and>
   (\<exists>villages. read_file sample_env ''villages.shp'' = Inr villages \<and> length villages = 2 \<and>
      series_get (villages ! 0) ''ADM3_EN'' (PyInt 0) = PyStr ''Pathum'' \<and>
      series_get (villages ! 1) ''ADM3_EN'' (PyInt 1) = PyInt 1)"
proof -
  let ?table = "[[(''village_id'', PyStr ''Pathum''), (''village_name'', PyStr ''Village_0''),
            (''total_area (hectares)'', PyFloat (5764607523034235 / 2 ^ 55)), (''no_flood_area (hectares)'', PyFloat 0),
            (''0-0.5 m (hectares)'', PyFloat 0), (''0.5-1.0m (hectares)'', PyFloat (5764607523034235 / 2 ^ 55)),
            (''>1.0 m (hectares)'', PyFloat 0), (''total_flooded_area (hectares)'', PyFloat (5764607523034235 / 2 ^ 55))],
           [(''village_id'', PyInt 1), (''village_name'', PyStr ''Village_1''),
            (''total_area (hectares)'', PyFloat 0), (''no_flood_area (hectares)'', PyFloat 0),
            (''0-0.5 m (hectares)'', PyFloat 0), (''0.5-1.0m (hectares)'', PyFloat 0),
            (''>1.0 m (hectares)'', PyFloat 0), (''total_flooded_area (hectares)'', PyFloat 0)]]"
  have h: "calculate_flood_area_by_village sample_round sample_env sample_str ''flood.tif'' ''villages.shp''
     (Some [Fin (1/2), Fin 1]) ''hectare'' =
     ([ReadFile ''villages.shp'', RasterOpen ''flood.tif'', RasterRead 1, MaskCall 0, MaskCall 1, RasterClose],
      Inr ?table)"
    by (simp add: sample_run)
  from rows_follow_polygon_order [OF h]
  obtain villages where v: "read_file sample_env ''villages.shp'' = Inr villages"
    and l: "length ?table = length villages"
    and rows: "\<forall>k < length villages.
        ?table ! k ! 0 = (''village_id'', series_get (villages ! k) ''ADM3_EN'' (PyInt (int k)))"
    by blast
  have l2: "length villages = 2" using l by simp
  have k0: "(0::nat) < length villages" and k1: "(1::nat) < length villages" using l2 by simp_all
  have "series_get (villages ! 0) ''ADM3_EN'' (PyInt 0) = PyStr ''Pathum''"
    using rows [rule_format, OF k0] by simp
  moreover have "series_get (villages ! 1) ''ADM3_EN'' (PyInt 1) = PyInt 1"
    using rows [rule_format, OF k1] by simp
  ultimately show ?thesis using h v l2 by blast
qed

lemma dict_set_not_Nil: "dict_set k v d \<noteq> []"
  by (cases d) (auto split: if_splits)

lemma count_fields_not_Nil: "count_fields str_of ts g \<noteq> []"
  by (simp add: count_fields_def dict_set_not_Nil)

lemma Inr_table_snd:
  "snd (calculate_flood_area_by_village rnd e str_of rp vp thr unit) = Inr table \<Longrightarrow>
   \<exists>tr. calculate_flood_area_by_village rnd e str_of rp vp thr unit = (tr, Inr table)"
  by (cases "calculate_flood_area_by_village rnd e str_of rp vp thr unit") simp

lemma village_result_total:
  assumes "unit_suffix_ok s" "ts \<noteq> []" "mask src [geometry v] = Inr (band # others, mt)"
  shows "\<exists>row. village_result rnd str_of src ts pa s idx v = Inr row"
proof -
  from classify_flood_depth_cells [OF assms(2), of "dtype src" band]
  obtain g where "classify_flood_depth (dtype src) band (Some ts) = Inr g" by blast
  from village_result_row [OF assms(1,3) this, of rnd str_of pa idx] show ?thesis by blast
qed

lemma villages_loop_total:
  "(\<forall>k < length vs. \<exists>row. village_result rnd str_of src ts pa s (idx + k) (vs ! k) = Inr row) \<Longrightarrow>
   \<exists>tr table. villages_loop rnd str_of src ts pa s idx vs results trace = (tr, Inr table)"
proof (induction vs arbitrary: idx results trace)
  case Nil
  then show ?case by simp
next
  case (Cons v vs)
  from Cons.prems [rule_format, of 0]
  obtain row where r: "village_result rnd str_of src ts pa s idx v = Inr row" by auto
  have "\<exists>row. village_result rnd str_of src ts pa s (Suc idx + k) (vs ! k) = Inr row"
    if "k < length vs" for k
    using Cons.prems [rule_format, of "Suc k"] that by simp
  then have "\<exists>tr table. villages_loop rnd str_of src ts pa s (Suc idx) vs (results @ [row])
      (trace @ [MaskCall idx]) = (tr, Inr table)"
    using Cons.IH by blast
  then show ?case using r by simp
qed

lemma calculate_total:
  assumes "read_file e vp = Inr villages" "rasterio_open e rp = Inr src"
    "read_band src 1 = Inr flood_data"
    "resolve_unit rnd (abs (rnd (tr_a (transform src) * tr_e (transform src)))) unit = Inr (pa, s)" "ts \<noteq> []"
    "\<forall>i < length villages. \<exists>band others mt. mask src [geometry (villages ! i)] = Inr (band # others, mt)"
  shows "\<exists>tr table. calculate_flood_area_by_village rnd e str_of rp vp (Some ts) unit = (tr, Inr table)"
proof -
  have ok: "unit_suffix_ok s" using resolve_unit_Inr [OF assms(4)] by blast
  have "\<exists>row. village_result rnd str_of src ts pa s (0 + k) (villages ! k) = Inr row"
    if "k < length villages" for k
  proof -
    from assms(6) that obtain band others mt where
      "mask src [geometry (villages ! k)] = Inr (band # others, mt)" by blast
    from village_result_total [OF ok assms(5) this] show ?thesis by simp
  qed
  then have "\<exists>tr table. villages_loop rnd str_of src ts pa s 0 villages []
      [ReadFile vp, RasterOpen rp, RasterRead 1] = (tr, Inr table)"
    using villages_loop_total by blast
  then obtain tr table where "villages_loop rnd str_of src ts pa s 0 villages []
      [ReadFile vp, RasterOpen rp, RasterRead 1] = (tr, Inr table)" by blast
  then have "calculate_flood_area_by_village rnd e str_of rp vp (Some ts) unit = (tr @ [RasterClose], Inr table)"
    using assms(1-4) by (simp add: calculate_flood_area_by_village_def Let_def)
  then show ?thesis by blast
qed

text \<open>
  C8, as amended. For a polygon with zero overlap against the raster: if the clip returns
  a grid without cells, the row of the polygon in the returned table has every area field
  equal to zero (the rounding of 0 being 0, as in binary64), and a run in which every
  clip returns a grid does return a table (for a known unit and a non-empty threshold
  list); if the clip raises an error, the call returns no table: the error is not caught
  and no record is substituted.
\<close>

theorem zero_overlap_rows:
  assumes "read_file e vp = Inr villages" "rasterio_open e rp = Inr src" "k < length villages"
  shows "(\<forall>tr table band others mt.
            calculate_flood_area_by_village rnd e str_of rp vp (Some ts) unit = (tr, Inr table) \<and>
            mask src [geometry (villages ! k)] = Inr (band # others, mt) \<and> cell_count band = 0 \<and>
            rnd 0 = 0 \<longrightarrow>
            2 < length (table ! k) \<and>
            (\<forall>j. 2 \<le> j \<and> j < length (table ! k) \<longrightarrow> snd (table ! k ! j) = PyFloat 0)) \<and>
         (\<forall>flood_data pa s.
            read_band src 1 = Inr flood_data \<and>
            resolve_unit rnd (abs (rnd (tr_a (transform src) * tr_e (transform src)))) unit = Inr (pa, s) \<and> ts \<noteq> [] \<and>
            (\<forall>i < length villages. \<exists>band others mt.
               mask src [geometry (villages ! i)] = Inr (band # others, mt)) \<longrightarrow>
            (\<exists>tr table. calculate_flood_area_by_village rnd e str_of rp vp (Some ts) unit = (tr, Inr table))) \<and>
         (\<forall>err. mask src [geometry (villages ! k)] = Inl err \<longrightarrow>
            (\<forall>table. snd (calculate_flood_area_by_village rnd e str_of rp vp (Some ts) unit) \<noteq> Inr table))"
proof -
  have zero: "2 < length (table ! k) \<and>
      (\<forall>j. 2 \<le> j \<and> j < length (table ! k) \<longrightarrow> snd (table ! k ! j) = PyFloat 0)"
    if run: "calculate_flood_area_by_village rnd e str_of rp vp (Some ts) unit = (tr, Inr table)"
      and m: "mask src [geometry (villages ! k)] = Inr (band # others, mt)"
      and z: "cell_count band = 0" and r0: "rnd 0 = 0"
    for tr table band others mt
  proof -
    from calculate_Inr [OF run] assms(1,2)
    obtain pa s where u: "resolve_unit rnd \<bar>rnd (tr_a (transform src) * tr_e (transform src))\<bar> unit = Inr (pa, s)"
      and rows: "\<forall>k < length villages. village_result rnd str_of src ts pa s k (villages ! k) = Inr (table ! k)"
      by auto
    have ok: "unit_suffix_ok s" using resolve_unit_Inr [OF u] by blast
    have r: "village_result rnd str_of src ts pa s k (villages ! k) = Inr (table ! k)"
      using rows assms(3) by blast
    from village_result_shape [OF ok r] m
    obtain g where c: "classify_flood_depth (dtype src) band (Some ts) = Inr g"
      and row: "table ! k = [(''village_id'', series_get (villages ! k) ''ADM3_EN'' (PyInt (int k))),
                  (''village_name'', series_get (villages ! k) ''ADM3_TH'' (PyStr (''Village_'' @ str_of_nat k)))]
                 @ map (area_field rnd s pa) (count_fields str_of ts g)"
      by auto
    have "same_shape g band" using classify_flood_depth_Inr [OF c] by blast
    then have gz: "cell_count g = 0" using cell_count_same_shape z by metis
    let ?cf = "count_fields str_of ts g"
    have len: "length (table ! k) = 2 + length ?cf" unfolding row by simp
    have "length ?cf \<noteq> 0" using count_fields_not_Nil [of str_of ts g] by simp
    then have l2: "2 < length (table ! k)" using len by simp
    have vals: "snd (table ! k ! j) = PyFloat 0" if j: "2 \<le> j" "j < length (table ! k)" for j
    proof -
      have i: "j - 2 < length ?cf" using j len by simp
      have "table ! k ! j = map (area_field rnd s pa) ?cf ! (j - 2)"
        unfolding row using j(1) by (simp add: nth_append numeral_2_eq_2)
      then have e: "table ! k ! j = area_field rnd s pa (?cf ! (j - 2))" using i by simp
      have "(fst (?cf ! (j - 2)), snd (?cf ! (j - 2))) \<in> set ?cf" using i by simp
      then have "snd (?cf ! (j - 2)) \<le> cell_count g" by (rule count_fields_member)
      then have "snd (?cf ! (j - 2)) = 0" using gz by simp
      then show ?thesis unfolding e by (simp add: area_field_def int_mul_float_def r0)
    qed
    show ?thesis using l2 vals by blast
  qed
  have err: "snd (calculate_flood_area_by_village rnd e str_of rp vp (Some ts) unit) \<noteq> Inr table"
    if m: "mask src [geometry (villages ! k)] = Inl err" for err table
  proof
    assume "snd (calculate_flood_area_by_village rnd e str_of rp vp (Some ts) unit) = Inr table"
    then obtain tr where run: "calculate_flood_area_by_village rnd e str_of rp vp (Some ts) unit = (tr, Inr table)"
      using Inr_table_snd by blast
    from calculate_Inr [OF run] assms(1,2)
    obtain pa s where
      rows: "\<forall>k < length villages. village_result rnd str_of src ts pa s k (villages ! k) = Inr (table ! k)"
      by auto
    have "village_result rnd str_of src ts pa s k (villages ! k) = Inr (table ! k)"
      using rows assms(3) by blast
    then show False using village_result_mask_error [OF m, of rnd str_of ts pa s k] by simp
  qed
  have total: "\<exists>tr table. calculate_flood_area_by_village rnd e str_of rp vp (Some ts) unit = (tr, Inr table)"
    if "read_band src 1 = Inr flood_data \<and>
        resolve_unit rnd (abs (rnd (tr_a (transform src) * tr_e (transform src)))) unit = Inr (pa, s) \<and> ts \<noteq> [] \<and>
        (\<forall>i < length villages. \<exists>band others mt.
           mask src [geometry (villages ! i)] = Inr (band # others, mt))"
    for flood_data pa s
    using calculate_total [OF assms(1,2), of flood_data rnd unit pa s ts str_of] that by blast
  show ?thesis using zero total err by blast
qed

theorem zero_overlap_rows_witness:
  "read_file sample_env ''villages.shp'' = Inr sample_villages \<and>
   rasterio_open sample_env ''flood.tif'' = Inr sample_raster \<and>
   1 < length sample_villages \<and>
   mask sample_raster [geometry (sample_villages ! 1)] = Inr ([] # [], sample_transform) \<and>
   cell_count ([] :: fl grid) = 0 \<and> sample_round 0 = 0 \<and>
   (\<exists>tr table. calculate_flood_area_by_village sample_round sample_env sample_str ''flood.tif'' ''villages.shp''
       (Some [Fin (1/2), Fin 1]) ''rai'' = (tr, Inr table) \<and>
       snd (table ! 1 ! 2) = PyFloat 0 \<and> snd (table ! 1 ! 7) = PyFloat 0) \<and>
   read_band sample_raster 1 = Inr [[Fin 0, Fin (3/4)], [Fin 0, Fin 5]] \<and>
   resolve_unit sample_round (abs (sample_round (tr_a (transform sample_raster) * tr_e (transform sample_raster)))) ''rai''
     = Inr (1, '' (rai)'') \<and>
   [Fin (1/2), Fin 1] \<noteq> [] \<and>
   mask sample_raster [geometry (sample_villages ! 0)] = Inr ([[Fin (3/4)]] # [], sample_transform) \<and>
   (\<exists>tr table. calculate_flood_area_by_village sample_round sample_env sample_str ''flood.tif'' ''villages.shp''
       (Some [Fin (1/2), Fin 1]) ''rai'' = (tr, Inr table)) \<and>
   read_file outside_env ''villages.shp''
     = Inr (sample_villages @ [\<lparr>geometry = 2, attributes = Map.empty\<rparr>]) \<and>
   rasterio_open outside_env ''flood.tif'' = Inr sample_raster \<and>
   mask sample_raster [geometry ((sample_villages @ [\<lparr>geometry = 2, attributes = Map.empty\<rparr>]) ! 2)]
     = Inl (ValueError ''Input shapes do not overlap raster.'') \<and>
   (\<forall>table. snd (calculate_flood_area_by_village sample_round outside_env sample_str ''flood.tif'' ''villages.shp''
       (Some [Fin (1/2), Fin 1]) ''rai'') \<noteq> Inr table)"
proof -
  let ?table = "[[(''village_id'', PyStr ''Pathum''), (''village_name'', PyStr ''Village_0''),
            (''total_area (rai)'', PyFloat 1), (''no_flood_area (rai)'', PyFloat 0),
            (''0-0.5 m (rai)'', PyFloat 0), (''0.5-1.0m (rai)'', PyFloat 1),
            (''>1.0 m (rai)'', PyFloat 0), (''total_flooded_area (rai)'', PyFloat 1)],
           [(''village_id'', PyInt 1), (''village_name'', PyStr ''Village_1''),
            (''total_area (rai)'', PyFloat 0), (''no_flood_area (rai)'', PyFloat 0),
            (''0-0.5 m (rai)'', PyFloat 0), (''0.5-1.0m (rai)'', PyFloat 0),
            (''>1.0 m (rai)'', PyFloat 0), (''total_flooded_area (rai)'', PyFloat 0)]]"
  let ?vs = "sample_villages @ [\<lparr>geometry = 2, attributes = Map.empty\<rparr>]"
  have a: "read_file sample_env ''villages.shp'' = Inr sample_villages"
    "rasterio_open sample_env ''flood.tif'' = Inr sample_raster"
    "1 < length sample_villages"
    by (simp_all add: sample_env_def sample_villages_def)
  have m: "mask sample_raster [geometry (sample_villages ! 1)] = Inr ([] # [], sample_transform)"
    by (simp add: sample_raster_def sample_villages_def sample_mask_def)
  have z: "cell_count ([] :: fl grid) = 0" by (simp add: cell_count_def)
  have r0: "sample_round 0 = 0" by (simp add: sample_round_def)
  have run: "calculate_flood_area_by_village sample_round sample_env sample_str ''flood.tif'' ''villages.shp''
       (Some [Fin (1/2), Fin 1]) ''rai'' =
       ([ReadFile ''villages.shp'', RasterOpen ''flood.tif'', RasterRead 1, MaskCall 0, MaskCall 1,
         RasterClose], Inr ?table)"
    by (simp add: sample_run)
  from zero_overlap_rows [OF a, of sample_round sample_str "[Fin (1/2), Fin 1]" "''rai''"] run m z r0
  have v: "\<forall>j. 2 \<le> j \<and> j < length (?table ! 1) \<longrightarrow> snd (?table ! 1 ! j) = PyFloat 0"
    by blast
  have "snd (?table ! 1 ! 2) = PyFloat 0"
    by (rule v [rule_format]) simp
  moreover have "snd (?table ! 1 ! 7) = PyFloat 0"
    by (rule v [rule_format]) simp
  ultimately have first: "\<exists>tr table. calculate_flood_area_by_village sample_round sample_env sample_str ''flood.tif''
       ''villages.shp'' (Some [Fin (1/2), Fin 1]) ''rai'' = (tr, Inr table) \<and>
       snd (table ! 1 ! 2) = PyFloat 0 \<and> snd (table ! 1 ! 7) = PyFloat 0"
    using run by blast
  have rb: "read_band sample_raster 1 = Inr [[Fin 0, Fin (3/4)], [Fin 0, Fin 5]]"
    by (simp add: sample_raster_def)
  have ru: "resolve_unit sample_round (abs (sample_round (tr_a (transform sample_raster) * tr_e (transform sample_raster)))) ''rai''
     = Inr (1, '' (rai)'')"
    by (simp add: resolve_unit_def sample_raster_def sample_transform_def sample_round_def)
  have ne: "[Fin (1/2), Fin 1] \<noteq> []" by simp
  have m0: "mask sample_raster [geometry (sample_villages ! 0)] = Inr ([[Fin (3/4)]] # [], sample_transform)"
    by (simp add: sample_raster_def sample_villages_def sample_mask_def)
  have "i = 0 \<or> i = 1" if "i < length sample_villages" for i
    using that by (auto simp: sample_villages_def)
  then have clips: "\<forall>i < length sample_villages. \<exists>band others mt.
      mask sample_raster [geometry (sample_villages ! i)] = Inr (band # others, mt)"
    using m m0 by metis
  from zero_overlap_rows [OF a, of sample_round sample_str "[Fin (1/2), Fin 1]" "''rai''"] rb ru ne clips
  have returns: "\<exists>tr table. calculate_flood_area_by_village sample_round sample_env sample_str ''flood.tif''
       ''villages.shp'' (Some [Fin (1/2), Fin 1]) ''rai'' = (tr, Inr table)"
    by blast
  have b: "read_file outside_env ''villages.shp'' = Inr ?vs"
    "rasterio_open outside_env ''flood.tif'' = Inr sample_raster"
    "2 < length ?vs"
    by (simp_all add: outside_env_def sample_villages_def)
  have me: "mask sample_raster [geometry (?vs ! 2)] = Inl (ValueError ''Input shapes do not overlap raster.'')"
    by (simp add: sample_raster_def sample_villages_def sample_mask_def)
  from zero_overlap_rows [OF b, of sample_round sample_str "[Fin (1/2), Fin 1]" "''rai''"] me
  have second: "\<forall>table. snd (calculate_flood_area_by_village sample_round outside_env sample_str ''flood.tif''
       ''villages.shp'' (Some [Fin (1/2), Fin 1]) ''rai'') \<noteq> Inr table"
    by blast
  show ?thesis by (intro conjI) (rule a m z r0 first rb ru ne m0 returns b(1,2) me second)+
qed

text \<open>
  C8, as stated, fails: when the clip of the third polygon raises the error of a
  polygon outside the raster, the call ends with that error and returns no table.
\<close>

theorem outside_polygon_aborts_run:
  "mask sample_raster [2] = Inl (ValueError ''Input shapes do not overlap raster.'') \<and>
   calculate_flood_area_by_village sample_round outside_env sample_str ''flood.tif'' ''villages.shp''
     (Some [Fin (1/2), Fin 1]) ''rai'' =
     ([ReadFile ''villages.shp'', RasterOpen ''flood.tif'', RasterRead 1, MaskCall 0, MaskCall 1,
       MaskCall 2, RasterClose],
      Inl (ValueError ''Input shapes do not overlap raster.''))"
  by (simp add: sample_run)

text \<open>
  C7, as amended. The keys of every row of a returned table are the identifier and the
  name, then, each followed by the suffix of the unit, the keys that storing
  \<open>total_area\<close>, \<open>no_flood_area\<close>, the band labels and \<open>total_flooded_area\<close> in this
  order leaves in a dictionary; they are the same, in the same order, for every row. The
  first band label is \<open>0-{thresholds[0]} m\<close>, band i after it is
  \<open>{thresholds[i-1]}-{thresholds[i]}m\<close>, with no space before the m, and the last is
  \<open>>{thresholds[-1]} m\<close>. When the band labels differ from one another, the keys are
  exactly these labels.
\<close>

theorem band_column_names:
  assumes "calculate_flood_area_by_village rnd e str_of rp vp (Some ts) unit = (tr, Inr table)"
  shows "\<exists>p pa s. resolve_unit rnd p unit = Inr (pa, s) \<and>
      (\<forall>k < length table. map fst (table ! k) =
          [''village_id'', ''village_name''] @ map (\<lambda>l. l @ s) (keys_after (inserted_labels str_of ts))) \<and>
      (ts \<noteq> [] \<longrightarrow>
         length (band_labels str_of ts) = length ts + 1 \<and>
         band_labels str_of ts ! 0 = ''0-'' @ str_of (ts ! 0) @ '' m'' \<and>
         (\<forall>i. 0 < i \<and> i < length ts \<longrightarrow>
            band_labels str_of ts ! i = str_of (ts ! (i - 1)) @ ''-'' @ str_of (ts ! i) @ ''m'') \<and>
         band_labels str_of ts ! length ts = ''>'' @ str_of (ts ! (length ts - 1)) @ '' m'') \<and>
      (distinct (band_labels str_of ts) \<longrightarrow>
         keys_after (inserted_labels str_of ts) = inserted_labels str_of ts)"
proof -
  from calculate_Inr [OF assms]
  obtain villages src pa s where v: "read_file e vp = Inr villages"
    and o: "rasterio_open e rp = Inr src"
    and u: "resolve_unit rnd \<bar>rnd (tr_a (transform src) * tr_e (transform src))\<bar> unit = Inr (pa, s)"
    and l: "length table = length villages"
    and rows: "\<forall>k < length villages. village_result rnd str_of src ts pa s k (villages ! k) = Inr (table ! k)"
    by blast
  have ok: "unit_suffix_ok s" using resolve_unit_Inr [OF u] by blast
  have keys: "map fst (table ! k) =
          [''village_id'', ''village_name''] @ map (\<lambda>l. l @ s) (keys_after (inserted_labels str_of ts))"
    if "k < length table" for k
  proof -
    have r: "village_result rnd str_of src ts pa s k (villages ! k) = Inr (table ! k)"
      using rows that l by simp
    from village_result_shape [OF ok r] obtain g where
      row: "table ! k = [(''village_id'', series_get (villages ! k) ''ADM3_EN'' (PyInt (int k))),
                  (''village_name'', series_get (villages ! k) ''ADM3_TH'' (PyStr (''Village_'' @ str_of_nat k)))]
                 @ map (area_field rnd s pa) (count_fields str_of ts g)"
      by blast
    have "map fst (map (area_field rnd s pa) (count_fields str_of ts g)) =
          map (\<lambda>l. l @ s) (map fst (count_fields str_of ts g))"
      by (simp add: area_field_def comp_def)
    then show ?thesis unfolding row by (simp add: count_fields_keys)
  qed
  have labels: "length (band_labels str_of ts) = length ts + 1 \<and>
         band_labels str_of ts ! 0 = ''0-'' @ str_of (ts ! 0) @ '' m'' \<and>
         (\<forall>i. 0 < i \<and> i < length ts \<longrightarrow>
            band_labels str_of ts ! i = str_of (ts ! (i - 1)) @ ''-'' @ str_of (ts ! i) @ ''m'') \<and>
         band_labels str_of ts ! length ts = ''>'' @ str_of (ts ! (length ts - 1)) @ '' m''"
    if ne: "ts \<noteq> []"
  proof -
    have n: "band_labels str_of ts ! i = band_label str_of ts i" if "i < length ts" for i
      using that by (simp add: band_labels_def nth_append)
    have 0: "band_labels str_of ts ! 0 = ''0-'' @ str_of (ts ! 0) @ '' m''"
      using n [of 0] ne by (simp add: band_label_def)
    have i: "band_labels str_of ts ! i = str_of (ts ! (i - 1)) @ ''-'' @ str_of (ts ! i) @ ''m''"
      if "0 < i" "i < length ts" for i
      using n [OF that(2)] that(1) by (simp add: band_label_def)
    have e: "band_labels str_of ts ! length ts = ''>'' @ str_of (ts ! (length ts - 1)) @ '' m''"
      using ne by (simp add: band_labels_def nth_append last_label_def last_conv_nth)
    show ?thesis using 0 i e by (simp add: band_labels_def)
  qed
  have dist: "keys_after (inserted_labels str_of ts) = inserted_labels str_of ts"
    if "distinct (band_labels str_of ts)"
    using keys_after_distinct [of "inserted_labels str_of ts" "[]"] inserted_labels_distinct [OF that]
    by (simp add: keys_after_def)
  show ?thesis using u keys labels dist by blast
qed

theorem band_column_names_witness:
  "calculate_flood_area_by_village sample_round sample_env sample_str ''flood.tif'' ''villages.shp''
     (Some [Fin (1/2), Fin 1]) ''rai'' =
     ([ReadFile ''villages.shp'', RasterOpen ''flood.tif'', RasterRead 1, MaskCall 0, MaskCall 1, RasterClose],
      Inr [[(''village_id'', PyStr ''Pathum''), (''village_name'', PyStr ''Village_0''),
            (''total_area (rai)'', PyFloat 1), (''no_flood_area (rai)'', PyFloat 0),
            (''0-0.5 m (rai)'', PyFloat 0), (''0.5-1.0m (rai)'', PyFloat 1),
            (''>1.0 m (rai)'', PyFloat 0), (''total_flooded_area (rai)'', PyFloat 1)],
           [(''village_id'', PyInt 1), (''village_name'', PyStr ''Village_1''),
            (''total_area (rai)'', PyFloat 0), (''no_flood_area (rai)'', PyFloat 0),
            (''0-0.5 m (rai)'', PyFloat 0), (''0.5-1.0m (rai)'', PyFloat 0),
            (''>1.0 m (rai)'', PyFloat 0), (''total_flooded_area (rai)'', PyFloat 0)]]) \<and>
   [Fin (1/2), Fin 1] \<noteq> [] \<and>
   distinct (band_labels sample_str [Fin (1/2), Fin 1]) \<and>
   band_labels sample_str [Fin (1/2), Fin 1] ! 1
     = sample_str ([Fin (1/2), Fin 1] ! (1 - 1)) @ ''-'' @ sample_str ([Fin (1/2), Fin 1] ! 1) @ ''m'' \<and>
   keys_after (inserted_labels sample_str [Fin (1/2), Fin 1]) = inserted_labels sample_str [Fin (1/2), Fin 1]"
proof -
  let ?ts = "[Fin (1/2), Fin 1]"
  let ?table = "[[(''village_id'', PyStr ''Pathum''), (''village_name'', PyStr ''Village_0''),
            (''total_area (rai)'', PyFloat 1), (''no_flood_area (rai)'', PyFloat 0),
            (''0-0.5 m (rai)'', PyFloat 0), (''0.5-1.0m (rai)'', PyFloat 1),
            (''>1.0 m (rai)'', PyFloat 0), (''total_flooded_area (rai)'', PyFloat 1)],
           [(''village_id'', PyInt 1), (''village_name'', PyStr ''Village_1''),
            (''total_area (rai)'', PyFloat 0), (''no_flood_area (rai)'', PyFloat 0),
            (''0-0.5 m (rai)'', PyFloat 0), (''0.5-1.0m (rai)'', PyFloat 0),
            (''>1.0 m (rai)'', PyFloat 0), (''total_flooded_area (rai)'', PyFloat 0)]]"
  have run: "calculate_flood_area_by_village sample_round sample_env sample_str ''flood.tif'' ''villages.shp''
     (Some ?ts) ''rai'' =
     ([ReadFile ''villages.shp'', RasterOpen ''flood.tif'', RasterRead 1, MaskCall 0, MaskCall 1, RasterClose],
      Inr ?table)"
    by (simp add: sample_run)
  have ne: "?ts \<noteq> []" by simp
  have d: "distinct (band_labels sample_str ?ts)"
    by (simp add: band_labels_def band_label_def last_label_def sample_str_def)
  from band_column_names [OF run] ne d
  have i: "\<forall>i. 0 < i \<and> i < length ?ts \<longrightarrow>
            band_labels sample_str ?ts ! i = sample_str (?ts ! (i - 1)) @ ''-'' @ sample_str (?ts ! i) @ ''m''"
    and k: "keys_after (inserted_labels sample_str ?ts) = inserted_labels sample_str ?ts"
    by blast+
  have "band_labels sample_str ?ts ! 1 = sample_str (?ts ! (1 - 1)) @ ''-'' @ sample_str (?ts ! 1) @ ''m''"
    by (rule i [rule_format]) simp
  then show ?thesis using run ne d k by blast
qed

text \<open>
  C7, as stated, fails: with the thresholds 0.5 and 1.0 the second band is stored under
  \<open>0.5-1.0m (rai)\<close>; there is no key \<open>0.5-1.0 m\<close>, with or without the suffix.
\<close>

theorem second_band_label_has_no_space:
  "band_labels sample_str [Fin (1/2), Fin 1] = [''0-0.5 m'', ''0.5-1.0m'', ''>1.0 m''] \<and>
   village_result sample_round sample_str sample_raster [Fin (1/2), Fin 1] 1 '' (rai)'' 0 (sample_villages ! 0) =
     Inr [(''village_id'', PyStr ''Pathum''), (''village_name'', PyStr ''Village_0''),
          (''total_area (rai)'', PyFloat 1), (''no_flood_area (rai)'', PyFloat 0),
          (''0-0.5 m (rai)'', PyFloat 0), (''0.5-1.0m (rai)'', PyFloat 1),
          (''>1.0 m (rai)'', PyFloat 0), (''total_flooded_area (rai)'', PyFloat 1)]"
  by (simp add: sample_run band_labels_def band_label_def last_label_def)

section \<open>Rounding errors\<close>

lemma rounds_within_D: "rounds_within rnd u \<Longrightarrow> \<bar>rnd x - x\<bar> \<le> u * \<bar>x\<bar>"
  by (simp add: rounds_within_def)

lemma rounds_within_nonneg: "rounds_within rnd u \<Longrightarrow> 0 \<le> u"
  using rounds_within_D [of rnd u 1] by simp

lemma rounds_within_zero: "rounds_within rnd u \<Longrightarrow> rnd 0 = 0"
  using rounds_within_D [of rnd u 0] by simp

lemma rounds_within_abs:
  assumes "rounds_within rnd u"
  shows "\<bar>rnd x\<bar> \<le> (1 + u) * \<bar>x\<bar>"
proof -
  have "\<bar>rnd x\<bar> \<le> \<bar>rnd x - x\<bar> + \<bar>x\<bar>" by simp
  also have "\<dots> \<le> u * \<bar>x\<bar> + \<bar>x\<bar>" using rounds_within_D [OF assms, of x] by simp
  finally show ?thesis by (simp add: algebra_simps)
qed

lemma int_mul_float_error:
  assumes "rounds_within rnd u"
  shows "\<bar>int_mul_float rnd n x - real n * x\<bar> \<le> (2 * u + u\<^sup>2) * (real n * \<bar>x\<bar>)"
proof -
  define y where "y = rnd (real n)"
  have u0: "0 \<le> u" by (rule rounds_within_nonneg [OF assms])
  have y1: "\<bar>y - real n\<bar> \<le> u * real n"
    unfolding y_def using rounds_within_D [OF assms, of "real n"] by simp
  have y2: "\<bar>y\<bar> \<le> (1 + u) * real n"
    unfolding y_def using rounds_within_abs [OF assms, of "real n"] by simp
  have "\<bar>rnd (y * x) - y * x\<bar> \<le> u * \<bar>y * x\<bar>" by (rule rounds_within_D [OF assms])
  also have "\<dots> = u * (\<bar>y\<bar> * \<bar>x\<bar>)" by (simp add: abs_mult)
  also have "\<dots> \<le> u * (((1 + u) * real n) * \<bar>x\<bar>)"
    by (intro mult_left_mono mult_right_mono y2 u0) simp
  finally have a: "\<bar>rnd (y * x) - y * x\<bar> \<le> u * (1 + u) * (real n * \<bar>x\<bar>)"
    by (simp add: algebra_simps)
  have "y * x - real n * x = (y - real n) * x" by (simp add: left_diff_distrib)
  then have "\<bar>y * x - real n * x\<bar> = \<bar>y - real n\<bar> * \<bar>x\<bar>"
    by (simp add: abs_mult)
  also have "\<dots> \<le> (u * real n) * \<bar>x\<bar>"
    by (intro mult_right_mono y1) simp
  finally have b: "\<bar>y * x - real n * x\<bar> \<le> u * (real n * \<bar>x\<bar>)" by (simp add: algebra_simps)
  have "\<bar>rnd (y * x) - real n * x\<bar> \<le> \<bar>rnd (y * x) - y * x\<bar> + \<bar>y * x - real n * x\<bar>"
    by simp
  also have "\<dots> \<le> u * (1 + u) * (real n * \<bar>x\<bar>) + u * (real n * \<bar>x\<bar>)"
    using a b by simp
  also have "\<dots> = (2 * u + u\<^sup>2) * (real n * \<bar>x\<bar>)"
    by (simp add: algebra_simps power2_eq_square)
  finally show ?thesis by (simp add: int_mul_float_def y_def)
qed

lemma int_mul_float_error3:
  assumes "rounds_within rnd u" "\<bar>pa - q\<bar> \<le> u * \<bar>q\<bar>"
  shows "\<bar>int_mul_float rnd n pa - real n * q\<bar> \<le> ((1 + u) ^ 3 - 1) * (real n * \<bar>q\<bar>)"
proof -
  have u0: "0 \<le> u" by (rule rounds_within_nonneg [OF assms(1)])
  have "\<bar>pa\<bar> \<le> \<bar>pa - q\<bar> + \<bar>q\<bar>" by simp
  then have pq: "\<bar>pa\<bar> \<le> (1 + u) * \<bar>q\<bar>" using assms(2) by (simp add: algebra_simps)
  have e0: "0 \<le> 2 * u + u\<^sup>2" using u0 by simp
  have "\<bar>int_mul_float rnd n pa - real n * pa\<bar> \<le> (2 * u + u\<^sup>2) * (real n * \<bar>pa\<bar>)"
    by (rule int_mul_float_error [OF assms(1)])
  also have "\<dots> \<le> (2 * u + u\<^sup>2) * (real n * ((1 + u) * \<bar>q\<bar>))"
    by (intro mult_left_mono pq e0) simp
  finally have a: "\<bar>int_mul_float rnd n pa - real n * pa\<bar> \<le>
      (2 * u + u\<^sup>2) * (1 + u) * (real n * \<bar>q\<bar>)"
    by (simp add: algebra_simps)
  have "real n * pa - real n * q = real n * (pa - q)" by (simp add: right_diff_distrib)
  then have "\<bar>real n * pa - real n * q\<bar> = real n * \<bar>pa - q\<bar>"
    by (simp add: abs_mult)
  also have "\<dots> \<le> real n * (u * \<bar>q\<bar>)"
    by (intro mult_left_mono assms(2)) simp
  finally have b: "\<bar>real n * pa - real n * q\<bar> \<le> u * (real n * \<bar>q\<bar>)" by (simp add: algebra_simps)
  have "\<bar>int_mul_float rnd n pa - real n * q\<bar> \<le>
      \<bar>int_mul_float rnd n pa - real n * pa\<bar> + \<bar>real n * pa - real n * q\<bar>"
    by simp
  also have "\<dots> \<le> (2 * u + u\<^sup>2) * (1 + u) * (real n * \<bar>q\<bar>) + u * (real n * \<bar>q\<bar>)"
    using a b by simp
  also have "\<dots> = ((1 + u) ^ 3 - 1) * (real n * \<bar>q\<bar>)"
    by (simp add: algebra_simps power2_eq_square power3_eq_cube)
  finally show ?thesis .
qed

lemma sum_list_int_mul_float_error:
  assumes "rounds_within rnd u"
  shows "\<bar>sum_list (map (\<lambda>j. int_mul_float rnd (c j) pa) xs) - real (sum_list (map c xs)) * pa\<bar> \<le>
         (2 * u + u\<^sup>2) * (real (sum_list (map c xs)) * \<bar>pa\<bar>)"
proof (induction xs)
  case Nil
  then show ?case by simp
next
  case (Cons x xs)
  let ?S = "sum_list (map (\<lambda>j. int_mul_float rnd (c j) pa) xs)"
  let ?N = "real (sum_list (map c xs))"
  have h: "\<bar>int_mul_float rnd (c x) pa - real (c x) * pa\<bar> \<le> (2 * u + u\<^sup>2) * (real (c x) * \<bar>pa\<bar>)"
    by (rule int_mul_float_error [OF assms])
  have "\<bar>(int_mul_float rnd (c x) pa + ?S) - (real (c x) + ?N) * pa\<bar> \<le>
        \<bar>int_mul_float rnd (c x) pa - real (c x) * pa\<bar> + \<bar>?S - ?N * pa\<bar>"
    by (simp add: algebra_simps)
  also have "\<dots> \<le> (2 * u + u\<^sup>2) * (real (c x) * \<bar>pa\<bar>) + (2 * u + u\<^sup>2) * (?N * \<bar>pa\<bar>)"
    using h Cons.IH by simp
  also have "\<dots> = (2 * u + u\<^sup>2) * ((real (c x) + ?N) * \<bar>pa\<bar>)"
    by (simp add: algebra_simps)
  finally show ?case by simp
qed

lemma sample_round_within: "rounds_within sample_round (1 / 2 ^ 53)"
  unfolding rounds_within_def sample_round_def by simp

lemma sample_round_nearest:
  "nearest_binary 53 (1600 / 1000000) 7378697629483821 62 \<and>
   nearest_binary 53 (1600 / 10000) 5764607523034235 55 \<and>
   nearest_binary 53 (6 * (7378697629483821 / 2 ^ 62)) 5534023222112866 59 \<and>
   nearest_binary 53 (7 * (7378697629483821 / 2 ^ 62)) 6456360425798343 59 \<and>
   nearest_binary 53 (9600 / 1000000) 5534023222112865 59 \<and>
   nearest_binary 53 (7378697629483821 / 2 ^ 62 + 5534023222112866 / 2 ^ 59) 6456360425798344 59 \<and>
   nearest_binary 53 (6456360425798343 / 2 ^ 59 - 7378697629483821 / 2 ^ 62) 5534023222112865 59"
  by (simp add: nearest_binary_def)

section \<open>Units\<close>

lemma spec_unit_divisor_pos: "spec_unit_divisor unit = Some f \<Longrightarrow> 0 < f"
  by (auto simp: spec_unit_divisor_def split: if_splits)

lemma spec_unit_divisor_m2: "spec_unit_divisor ''m2'' = Some f \<Longrightarrow> f = 1"
  by (simp add: spec_unit_divisor_def)

lemma resolve_unit_pixel_area:
  assumes "resolve_unit rnd p unit = Inr (pa, s)" "spec_unit_divisor unit = Some f"
  shows "pa = unit_pixel_area rnd p unit f"
  using resolve_unit_Inr [OF assms(1)] assms(2) by (auto simp: unit_pixel_area_def)

lemma unit_pixel_area_error:
  assumes "rounds_within rnd u" "spec_unit_divisor unit = Some f"
  shows "\<bar>unit_pixel_area rnd p unit f - p / f\<bar> \<le> u * \<bar>p / f\<bar>"
proof (cases "unit = ''m2''")
  case True
  then have "f = 1" using assms(2) spec_unit_divisor_m2 by blast
  then show ?thesis using True rounds_within_nonneg [OF assms(1)] by (simp add: unit_pixel_area_def)
next
  case False
  then show ?thesis using rounds_within_D [OF assms(1), of "p / f"] by (simp add: unit_pixel_area_def)
qed

lemma unit_area_error:
  assumes "rounds_within rnd u" "spec_unit_divisor unit = Some f" "0 \<le> p"
  shows "\<bar>int_mul_float rnd n (unit_pixel_area rnd p unit f) * f - real n * p\<bar> \<le>
         ((1 + u) ^ 3 - 1) * (real n * p)"
proof -
  have f0: "0 < f" by (rule spec_unit_divisor_pos [OF assms(2)])
  let ?x = "int_mul_float rnd n (unit_pixel_area rnd p unit f)"
  have h: "\<bar>?x - real n * (p / f)\<bar> \<le> ((1 + u) ^ 3 - 1) * (real n * \<bar>p / f\<bar>)"
    by (rule int_mul_float_error3 [OF assms(1) unit_pixel_area_error [OF assms(1,2)]])
  have f1: "0 \<le> f" using f0 by simp
  have m: "\<bar>?x - real n * (p / f)\<bar> * f \<le> ((1 + u) ^ 3 - 1) * (real n * \<bar>p / f\<bar>) * f"
    by (rule mult_right_mono [OF h f1])
  have "(?x - real n * (p / f)) * f = ?x * f - real n * p"
    using f0 by (simp add: left_diff_distrib)
  then have "\<bar>?x * f - real n * p\<bar> = \<bar>(?x - real n * (p / f)) * f\<bar>"
    by (simp only:)
  also have "\<dots> = \<bar>?x - real n * (p / f)\<bar> * f"
    using f0 by (simp only: abs_mult abs_of_pos)
  finally have l: "\<bar>?x * f - real n * p\<bar> = \<bar>?x - real n * (p / f)\<bar> * f" .
  have "\<bar>p / f\<bar> * f = p"
    using f0 assms(3) by simp
  then have r: "((1 + u) ^ 3 - 1) * (real n * \<bar>p / f\<bar>) * f = ((1 + u) ^ 3 - 1) * (real n * p)"
    by (simp only: mult.assoc)
  show ?thesis using m unfolding l r .
qed

lemma unit_areas_agree:
  assumes "rounds_within rnd u" "spec_unit_divisor unit1 = Some f1"
    "spec_unit_divisor unit2 = Some f2" "0 \<le> p"
  shows "\<bar>int_mul_float rnd n (unit_pixel_area rnd p unit1 f1) * f1 -
          int_mul_float rnd n (unit_pixel_area rnd p unit2 f2) * f2\<bar> \<le>
         2 * ((1 + u) ^ 3 - 1) * (real n * p)"
proof -
  define E where "E = ((1 + u) ^ 3 - 1) * (real n * p)"
  define x1 where "x1 = int_mul_float rnd n (unit_pixel_area rnd p unit1 f1) * f1"
  define x2 where "x2 = int_mul_float rnd n (unit_pixel_area rnd p unit2 f2) * f2"
  have a: "\<bar>x1 - real n * p\<bar> \<le> E"
    unfolding x1_def E_def by (rule unit_area_error [OF assms(1,2,4)])
  have b: "\<bar>x2 - real n * p\<bar> \<le> E"
    unfolding x2_def E_def by (rule unit_area_error [OF assms(1,3,4)])
  have "\<bar>x1 - x2\<bar> \<le> E + E" using a b by arith
  moreover have "E + E = 2 * ((1 + u) ^ 3 - 1) * (real n * p)" by (simp add: E_def)
  ultimately show ?thesis unfolding x1_def x2_def by simp
qed


lemma map2_snoc:
  "map2 f (map g xs @ [a]) (map h xs @ [b]) = map (\<lambda>x. f (g x) (h x)) xs @ [f a b]"
  by (induction xs) simp_all

text \<open>
  C6, as amended. In a run the pixel area in square metres is the absolute value of the
  rounded product of the two scale terms of the transform; the pixel area of the unit is
  this number for m2 and its rounded quotient by 1000000 for km2, by 10000 for hectare
  and by 1600 for rai, within the relative error \<open>u\<close> of the rounding of the exact
  quotient. Two runs on the same inputs with two units return tables of the same shape
  whose area values, field by field, are the rounded products of the same cell count
  \<open>n\<close> with the two pixel areas. Each value times the divisor of its unit is within the
  relative error \<open>(1 + u) ^ 3 - 1\<close> of the exact area of \<open>n\<close> cells in square metres, so that
  the two differ by at most twice that; they need not be equal. When 1 rounds to itself,
  a pixel area of 1600 in the unit rai is 1, and one cell of it has area 1.
\<close>

theorem unit_conversion:
  assumes "calculate_flood_area_by_village rnd e str_of rp vp (Some ts) unit1 = (tr1, Inr table1)"
    and "calculate_flood_area_by_village rnd e str_of rp vp (Some ts) unit2 = (tr2, Inr table2)"
    and "rasterio_open e rp = Inr src"
    and "spec_unit_divisor unit1 = Some f1" and "spec_unit_divisor unit2 = Some f2"
    and "rounds_within rnd u"
  shows "(\<exists>s1. resolve_unit rnd (pixel_area_m2_of rnd src) unit1 =
            Inr (unit_pixel_area rnd (pixel_area_m2_of rnd src) unit1 f1, s1)) \<and>
     (\<exists>s2. resolve_unit rnd (pixel_area_m2_of rnd src) unit2 =
            Inr (unit_pixel_area rnd (pixel_area_m2_of rnd src) unit2 f2, s2)) \<and>
     \<bar>unit_pixel_area rnd (pixel_area_m2_of rnd src) unit1 f1 - pixel_area_m2_of rnd src / f1\<bar>
       \<le> u * (pixel_area_m2_of rnd src / f1) \<and>
     \<bar>unit_pixel_area rnd (pixel_area_m2_of rnd src) unit2 f2 - pixel_area_m2_of rnd src / f2\<bar>
       \<le> u * (pixel_area_m2_of rnd src / f2) \<and>
     length table1 = length table2 \<and>
     (\<forall>k < length table1.
        length (table1 ! k) = length (table2 ! k) \<and>
        table1 ! k ! 0 = table2 ! k ! 0 \<and> table1 ! k ! 1 = table2 ! k ! 1 \<and>
        (\<forall>j. 2 \<le> j \<and> j < length (table1 ! k) \<longrightarrow>
           (\<exists>n x1 x2.
              x1 = int_mul_float rnd n (unit_pixel_area rnd (pixel_area_m2_of rnd src) unit1 f1) \<and>
              x2 = int_mul_float rnd n (unit_pixel_area rnd (pixel_area_m2_of rnd src) unit2 f2) \<and>
              snd (table1 ! k ! j) = PyFloat x1 \<and> snd (table2 ! k ! j) = PyFloat x2 \<and>
              \<bar>x1 * f1 - real n * pixel_area_m2_of rnd src\<bar>
                \<le> ((1 + u) ^ 3 - 1) * (real n * pixel_area_m2_of rnd src) \<and>
              \<bar>x2 * f2 - real n * pixel_area_m2_of rnd src\<bar>
                \<le> ((1 + u) ^ 3 - 1) * (real n * pixel_area_m2_of rnd src) \<and>
              \<bar>x1 * f1 - x2 * f2\<bar>
                \<le> 2 * ((1 + u) ^ 3 - 1) * (real n * pixel_area_m2_of rnd src)))) \<and>
     (rnd 1 = 1 \<longrightarrow>
        resolve_unit rnd 1600 ''rai'' = Inr (1, '' (rai)'') \<and> int_mul_float rnd 1 1 = 1)"
proof -
  define p where "p = pixel_area_m2_of rnd src"
  have pp: "p = \<bar>rnd (tr_a (transform src) * tr_e (transform src))\<bar>"
    by (simp add: p_def pixel_area_m2_of_def)
  have p0: "0 \<le> p" unfolding pp by simp
  define pa1 where "pa1 = unit_pixel_area rnd p unit1 f1"
  define pa2 where "pa2 = unit_pixel_area rnd p unit2 f2"
  from calculate_Inr [OF assms(1)] assms(3)
  obtain villages q1 s1 where v: "read_file e vp = Inr villages"
    and u1: "resolve_unit rnd p unit1 = Inr (q1, s1)"
    and l1: "length table1 = length villages"
    and rows1: "\<forall>k < length villages. village_result rnd str_of src ts q1 s1 k (villages ! k) = Inr (table1 ! k)"
    unfolding pp by auto
  from calculate_Inr [OF assms(2)] v assms(3)
  obtain q2 s2 where
    u2: "resolve_unit rnd p unit2 = Inr (q2, s2)"
    and l2: "length table2 = length villages"
    and rows2: "\<forall>k < length villages. village_result rnd str_of src ts q2 s2 k (villages ! k) = Inr (table2 ! k)"
    unfolding pp by auto
  have ok1: "unit_suffix_ok s1" using resolve_unit_Inr [OF u1] by blast
  have ok2: "unit_suffix_ok s2" using resolve_unit_Inr [OF u2] by blast
  have q1: "q1 = pa1" unfolding pa1_def by (rule resolve_unit_pixel_area [OF u1 assms(4)])
  have q2: "q2 = pa2" unfolding pa2_def by (rule resolve_unit_pixel_area [OF u2 assms(5)])
  have f0: "0 < f1" "0 < f2"
    using spec_unit_divisor_pos [OF assms(4)] spec_unit_divisor_pos [OF assms(5)] by simp_all
  have e1: "\<bar>pa1 - p / f1\<bar> \<le> u * (p / f1)"
    using unit_pixel_area_error [OF assms(6,4), of p] p0 f0(1) by (simp add: pa1_def)
  have e2: "\<bar>pa2 - p / f2\<bar> \<le> u * (p / f2)"
    using unit_pixel_area_error [OF assms(6,5), of p] p0 f0(2) by (simp add: pa2_def)
  have rows: "length (table1 ! k) = length (table2 ! k) \<and>
        table1 ! k ! 0 = table2 ! k ! 0 \<and> table1 ! k ! 1 = table2 ! k ! 1 \<and>
        (\<forall>j. 2 \<le> j \<and> j < length (table1 ! k) \<longrightarrow>
           (\<exists>n x1 x2.
              x1 = int_mul_float rnd n pa1 \<and> x2 = int_mul_float rnd n pa2 \<and>
              snd (table1 ! k ! j) = PyFloat x1 \<and> snd (table2 ! k ! j) = PyFloat x2 \<and>
              \<bar>x1 * f1 - real n * p\<bar> \<le> ((1 + u) ^ 3 - 1) * (real n * p) \<and>
              \<bar>x2 * f2 - real n * p\<bar> \<le> ((1 + u) ^ 3 - 1) * (real n * p) \<and>
              \<bar>x1 * f1 - x2 * f2\<bar> \<le> 2 * ((1 + u) ^ 3 - 1) * (real n * p)))"
    if k: "k < length table1" for k
  proof -
    have kv: "k < length villages" using k l1 by simp
    have r1: "village_result rnd str_of src ts pa1 s1 k (villages ! k) = Inr (table1 ! k)"
      using rows1 kv q1 by blast
    have r2: "village_result rnd str_of src ts pa2 s2 k (villages ! k) = Inr (table2 ! k)"
      using rows2 kv q2 by blast
    let ?pre = "[(''village_id'', series_get (villages ! k) ''ADM3_EN'' (PyInt (int k))),
                 (''village_name'', series_get (villages ! k) ''ADM3_TH'' (PyStr (''Village_'' @ str_of_nat k)))]"
    from village_result_shape [OF ok1 r1]
    obtain band others mt g where m: "mask src [geometry (villages ! k)] = Inr (band # others, mt)"
      and c: "classify_flood_depth (dtype src) band (Some ts) = Inr g"
      and row1: "table1 ! k = ?pre @ map (area_field rnd s1 pa1) (count_fields str_of ts g)"
      by blast
    from village_result_shape [OF ok2 r2] m c
    have row2: "table2 ! k = ?pre @ map (area_field rnd s2 pa2) (count_fields str_of ts g)"
      by auto
    let ?cf = "count_fields str_of ts g"
    have len: "length (table1 ! k) = 2 + length ?cf" "length (table2 ! k) = 2 + length ?cf"
      unfolding row1 row2 by simp_all
    have first: "table1 ! k ! 0 = table2 ! k ! 0" "table1 ! k ! 1 = table2 ! k ! 1"
      unfolding row1 row2 by simp_all
    have vals: "\<exists>n x1 x2.
              x1 = int_mul_float rnd n pa1 \<and> x2 = int_mul_float rnd n pa2 \<and>
              snd (table1 ! k ! j) = PyFloat x1 \<and> snd (table2 ! k ! j) = PyFloat x2 \<and>
              \<bar>x1 * f1 - real n * p\<bar> \<le> ((1 + u) ^ 3 - 1) * (real n * p) \<and>
              \<bar>x2 * f2 - real n * p\<bar> \<le> ((1 + u) ^ 3 - 1) * (real n * p) \<and>
              \<bar>x1 * f1 - x2 * f2\<bar> \<le> 2 * ((1 + u) ^ 3 - 1) * (real n * p)"
      if j: "2 \<le> j" "j < length (table1 ! k)" for j
    proof -
      have i: "j - 2 < length ?cf" using j len by simp
      define n where "n = snd (?cf ! (j - 2))"
      have "table1 ! k ! j = map (area_field rnd s1 pa1) ?cf ! (j - 2)"
        unfolding row1 using j(1) by (simp add: nth_append numeral_2_eq_2)
      then have v1: "snd (table1 ! k ! j) = PyFloat (int_mul_float rnd n pa1)"
        using i by (simp add: area_field_def n_def)
      have "table2 ! k ! j = map (area_field rnd s2 pa2) ?cf ! (j - 2)"
        unfolding row2 using j(1) by (simp add: nth_append numeral_2_eq_2)
      then have v2: "snd (table2 ! k ! j) = PyFloat (int_mul_float rnd n pa2)"
        using i by (simp add: area_field_def n_def)
      have b1: "\<bar>int_mul_float rnd n pa1 * f1 - real n * p\<bar> \<le> ((1 + u) ^ 3 - 1) * (real n * p)"
        unfolding pa1_def by (rule unit_area_error [OF assms(6,4) p0])
      have b2: "\<bar>int_mul_float rnd n pa2 * f2 - real n * p\<bar> \<le> ((1 + u) ^ 3 - 1) * (real n * p)"
        unfolding pa2_def by (rule unit_area_error [OF assms(6,5) p0])
      have b3: "\<bar>int_mul_float rnd n pa1 * f1 - int_mul_float rnd n pa2 * f2\<bar>
          \<le> 2 * ((1 + u) ^ 3 - 1) * (real n * p)"
        unfolding pa1_def pa2_def by (rule unit_areas_agree [OF assms(6,4,5) p0])
      show ?thesis
        by (intro exI [of _ n] exI [of _ "int_mul_float rnd n pa1"] exI [of _ "int_mul_float rnd n pa2"]
            conjI refl v1 v2 b1 b2 b3)
    qed
    show ?thesis
    proof (intro conjI allI impI)
      show "length (table1 ! k) = length (table2 ! k)" using len by simp
      show "table1 ! k ! 0 = table2 ! k ! 0" by (rule first(1))
      show "table1 ! k ! 1 = table2 ! k ! 1" by (rule first(2))
    next
      fix j assume "2 \<le> j \<and> j < length (table1 ! k)"
      then show "\<exists>n x1 x2.
              x1 = int_mul_float rnd n pa1 \<and> x2 = int_mul_float rnd n pa2 \<and>
              snd (table1 ! k ! j) = PyFloat x1 \<and> snd (table2 ! k ! j) = PyFloat x2 \<and>
              \<bar>x1 * f1 - real n * p\<bar> \<le> ((1 + u) ^ 3 - 1) * (real n * p) \<and>
              \<bar>x2 * f2 - real n * p\<bar> \<le> ((1 + u) ^ 3 - 1) * (real n * p) \<and>
              \<bar>x1 * f1 - x2 * f2\<bar> \<le> 2 * ((1 + u) ^ 3 - 1) * (real n * p)"
        using vals by blast
    qed
  qed
  have rai: "resolve_unit rnd 1600 ''rai'' = Inr (1, '' (rai)'') \<and> int_mul_float rnd 1 1 = 1"
    if "rnd 1 = 1"
    using that by (simp add: resolve_unit_def int_mul_float_def)
  have len: "length table1 = length table2" using l1 l2 by simp
  have r1: "\<exists>s1. resolve_unit rnd p unit1 = Inr (pa1, s1)" using u1 q1 by blast
  have r2: "\<exists>s2. resolve_unit rnd p unit2 = Inr (pa2, s2)" using u2 q2 by blast
  have "(\<exists>s1. resolve_unit rnd p unit1 = Inr (pa1, s1)) \<and>
     (\<exists>s2. resolve_unit rnd p unit2 = Inr (pa2, s2)) \<and>
     \<bar>pa1 - p / f1\<bar> \<le> u * (p / f1) \<and> \<bar>pa2 - p / f2\<bar> \<le> u * (p / f2) \<and>
     length table1 = length table2 \<and>
     (\<forall>k < length table1.
        length (table1 ! k) = length (table2 ! k) \<and>
        table1 ! k ! 0 = table2 ! k ! 0 \<and> table1 ! k ! 1 = table2 ! k ! 1 \<and>
        (\<forall>j. 2 \<le> j \<and> j < length (table1 ! k) \<longrightarrow>
           (\<exists>n x1 x2.
              x1 = int_mul_float rnd n pa1 \<and> x2 = int_mul_float rnd n pa2 \<and>
              snd (table1 ! k ! j) = PyFloat x1 \<and> snd (table2 ! k ! j) = PyFloat x2 \<and>
              \<bar>x1 * f1 - real n * p\<bar> \<le> ((1 + u) ^ 3 - 1) * (real n * p) \<and>
              \<bar>x2 * f2 - real n * p\<bar> \<le> ((1 + u) ^ 3 - 1) * (real n * p) \<and>
              \<bar>x1 * f1 - x2 * f2\<bar> \<le> 2 * ((1 + u) ^ 3 - 1) * (real n * p)))) \<and>
     (rnd 1 = 1 \<longrightarrow>
        resolve_unit rnd 1600 ''rai'' = Inr (1, '' (rai)'') \<and> int_mul_float rnd 1 1 = 1)"
    using r1 r2 e1 e2 len rows rai by blast
  then show ?thesis unfolding pa1_def pa2_def p_def .
qed


theorem unit_conversion_witness:
  "calculate_flood_area_by_village sample_round sample_env sample_str ''flood.tif'' ''villages.shp''
     (Some [Fin (1/2), Fin 1]) ''rai'' =
     ([ReadFile ''villages.shp'', RasterOpen ''flood.tif'', RasterRead 1, MaskCall 0, MaskCall 1, RasterClose],
      Inr [[(''village_id'', PyStr ''Pathum''), (''village_name'', PyStr ''Village_0''),
            (''total_area (rai)'', PyFloat 1), (''no_flood_area (rai)'', PyFloat 0),
            (''0-0.5 m (rai)'', PyFloat 0), (''0.5-1.0m (rai)'', PyFloat 1),
            (''>1.0 m (rai)'', PyFloat 0), (''total_flooded_area (rai)'', PyFloat 1)],
           [(''village_id'', PyInt 1), (''village_name'', PyStr ''Village_1''),
            (''total_area (rai)'', PyFloat 0), (''no_flood_area (rai)'', PyFloat 0),
            (''0-0.5 m (rai)'', PyFloat 0), (''0.5-1.0m (rai)'', PyFloat 0),
            (''>1.0 m (rai)'', PyFloat 0), (''total_flooded_area (rai)'', PyFloat 0)]]) \<and>
   calculate_flood_area_by_village sample_round sample_env sample_str ''flood.tif'' ''villages.shp''
     (Some [Fin (1/2), Fin 1]) ''hectare'' =
     ([ReadFile ''villages.shp'', RasterOpen ''flood.tif'', RasterRead 1, MaskCall 0, MaskCall 1, RasterClose],
      Inr [[(''village_id'', PyStr ''Pathum''), (''village_name'', PyStr ''Village_0''),
            (''total_area (hectares)'', PyFloat (5764607523034235 / 2 ^ 55)), (''no_flood_area (hectares)'', PyFloat 0),
            (''0-0.5 m (hectares)'', PyFloat 0), (''0.5-1.0m (hectares)'', PyFloat (5764607523034235 / 2 ^ 55)),
            (''>1.0 m (hectares)'', PyFloat 0), (''total_flooded_area (hectares)'', PyFloat (5764607523034235 / 2 ^ 55))],
           [(''village_id'', PyInt 1), (''village_name'', PyStr ''Village_1''),
            (''total_area (hectares)'', PyFloat 0), (''no_flood_area (hectares)'', PyFloat 0),
            (''0-0.5 m (hectares)'', PyFloat 0), (''0.5-1.0m (hectares)'', PyFloat 0),
            (''>1.0 m (hectares)'', PyFloat 0), (''total_flooded_area (hectares)'', PyFloat 0)]]) \<and>
   rasterio_open sample_env ''flood.tif'' = Inr sample_raster \<and>
   spec_unit_divisor ''rai'' = Some 1600 \<and> spec_unit_divisor ''hectare'' = Some 10000 \<and>
   rounds_within sample_round (1 / 2 ^ 53) \<and>
   pixel_area_m2_of sample_round sample_raster = 1600 \<and>
   (\<exists>n. \<bar>1 * 1600 - 5764607523034235 / 2 ^ 55 * 10000\<bar>
          \<le> 2 * ((1 + 1 / 2 ^ 53) ^ 3 - 1) * (real n * pixel_area_m2_of sample_round sample_raster)) \<and>
   sample_round 1 = 1 \<and>
   resolve_unit sample_round 1600 ''rai'' = Inr (1, '' (rai)'') \<and> int_mul_float sample_round 1 1 = 1"
proof -
  let ?t1 = "[[(''village_id'', PyStr ''Pathum''), (''village_name'', PyStr ''Village_0''),
            (''total_area (rai)'', PyFloat 1), (''no_flood_area (rai)'', PyFloat 0),
            (''0-0.5 m (rai)'', PyFloat 0), (''0.5-1.0m (rai)'', PyFloat 1),
            (''>1.0 m (rai)'', PyFloat 0), (''total_flooded_area (rai)'', PyFloat 1)],
           [(''village_id'', PyInt 1), (''village_name'', PyStr ''Village_1''),
            (''total_area (rai)'', PyFloat 0), (''no_flood_area (rai)'', PyFloat 0),
            (''0-0.5 m (rai)'', PyFloat 0), (''0.5-1.0m (rai)'', PyFloat 0),
            (''>1.0 m (rai)'', PyFloat 0), (''total_flooded_area (rai)'', PyFloat 0)]]"
  let ?t2 = "[[(''village_id'', PyStr ''Pathum''), (''village_name'', PyStr ''Village_0''),
            (''total_area (hectares)'', PyFloat (5764607523034235 / 2 ^ 55)), (''no_flood_area (hectares)'', PyFloat 0),
            (''0-0.5 m (hectares)'', PyFloat 0), (''0.5-1.0m (hectares)'', PyFloat (5764607523034235 / 2 ^ 55)),
            (''>1.0 m (hectares)'', PyFloat 0), (''total_flooded_area (hectares)'', PyFloat (5764607523034235 / 2 ^ 55))],
           [(''village_id'', PyInt 1), (''village_name'', PyStr ''Village_1''),
            (''total_area (hectares)'', PyFloat 0), (''no_flood_area (hectares)'', PyFloat 0),
            (''0-0.5 m (hectares)'', PyFloat 0), (''0.5-1.0m (hectares)'', PyFloat 0),
            (''>1.0 m (hectares)'', PyFloat 0), (''total_flooded_area (hectares)'', PyFloat 0)]]"
  let ?p = "pixel_area_m2_of sample_round sample_raster"
  let ?pa1 = "unit_pixel_area sample_round ?p ''rai'' 1600"
  let ?pa2 = "unit_pixel_area sample_round ?p ''hectare'' 10000"
  have run1: "calculate_flood_area_by_village sample_round sample_env sample_str ''flood.tif'' ''villages.shp''
     (Some [Fin (1/2), Fin 1]) ''rai'' =
     ([ReadFile ''villages.shp'', RasterOpen ''flood.tif'', RasterRead 1, MaskCall 0, MaskCall 1, RasterClose],
      Inr ?t1)"
    by (simp add: sample_run)
  have run2: "calculate_flood_area_by_village sample_round sample_env sample_str ''flood.tif'' ''villages.shp''
     (Some [Fin (1/2), Fin 1]) ''hectare'' =
     ([ReadFile ''villages.shp'', RasterOpen ''flood.tif'', RasterRead 1, MaskCall 0, MaskCall 1, RasterClose],
      Inr ?t2)"
    by (simp add: sample_run)
  have d: "spec_unit_divisor ''rai'' = Some 1600" "spec_unit_divisor ''hectare'' = Some 10000"
    by (simp_all add: spec_unit_divisor_def)
  have o: "rasterio_open sample_env ''flood.tif'' = Inr sample_raster"
    by (simp add: sample_env_def)
  have w: "rounds_within sample_round (1 / 2 ^ 53)" by (rule sample_round_within)
  have p: "?p = 1600"
    by (simp add: pixel_area_m2_of_def sample_raster_def sample_transform_def sample_round_def)
  have r1: "sample_round 1 = 1" by (simp add: sample_round_def)
  note t = unit_conversion [OF run1 run2 o d w]
  from t have rows: "\<forall>k < length ?t1.
        length (?t1 ! k) = length (?t2 ! k) \<and>
        ?t1 ! k ! 0 = ?t2 ! k ! 0 \<and> ?t1 ! k ! 1 = ?t2 ! k ! 1 \<and>
        (\<forall>j. 2 \<le> j \<and> j < length (?t1 ! k) \<longrightarrow>
           (\<exists>n x1 x2.
              x1 = int_mul_float sample_round n ?pa1 \<and> x2 = int_mul_float sample_round n ?pa2 \<and>
              snd (?t1 ! k ! j) = PyFloat x1 \<and> snd (?t2 ! k ! j) = PyFloat x2 \<and>
              \<bar>x1 * 1600 - real n * ?p\<bar> \<le> ((1 + 1 / 2 ^ 53) ^ 3 - 1) * (real n * ?p) \<and>
              \<bar>x2 * 10000 - real n * ?p\<bar> \<le> ((1 + 1 / 2 ^ 53) ^ 3 - 1) * (real n * ?p) \<and>
              \<bar>x1 * 1600 - x2 * 10000\<bar> \<le> 2 * ((1 + 1 / 2 ^ 53) ^ 3 - 1) * (real n * ?p)))"
    by blast
  from t have rai: "sample_round 1 = 1 \<longrightarrow>
        resolve_unit sample_round 1600 ''rai'' = Inr (1, '' (rai)'') \<and> int_mul_float sample_round 1 1 = 1"
    by blast
  have k0: "0 < length ?t1" by simp
  have j5: "2 \<le> (5::nat) \<and> 5 < length (?t1 ! 0)" by simp
  from rows [rule_format, OF k0]
  have "\<forall>j. 2 \<le> j \<and> j < length (?t1 ! 0) \<longrightarrow>
           (\<exists>n x1 x2.
              x1 = int_mul_float sample_round n ?pa1 \<and> x2 = int_mul_float sample_round n ?pa2 \<and>
              snd (?t1 ! 0 ! j) = PyFloat x1 \<and> snd (?t2 ! 0 ! j) = PyFloat x2 \<and>
              \<bar>x1 * 1600 - real n * ?p\<bar> \<le> ((1 + 1 / 2 ^ 53) ^ 3 - 1) * (real n * ?p) \<and>
              \<bar>x2 * 10000 - real n * ?p\<bar> \<le> ((1 + 1 / 2 ^ 53) ^ 3 - 1) * (real n * ?p) \<and>
              \<bar>x1 * 1600 - x2 * 10000\<bar> \<le> 2 * ((1 + 1 / 2 ^ 53) ^ 3 - 1) * (real n * ?p))"
    by blast
  from this [rule_format, OF j5]
  obtain n x1 x2 where v1: "snd (?t1 ! 0 ! 5) = PyFloat x1" and v2: "snd (?t2 ! 0 ! 5) = PyFloat x2"
    and b: "\<bar>x1 * 1600 - x2 * 10000\<bar> \<le> 2 * ((1 + 1 / 2 ^ 53) ^ 3 - 1) * (real n * ?p)"
    by blast
  have x1: "x1 = 1" using v1 by simp
  have x2: "x2 = 5764607523034235 / 2 ^ 55" using v2 by simp
  have ex: "\<exists>n. \<bar>1 * 1600 - 5764607523034235 / 2 ^ 55 * 10000\<bar>
          \<le> 2 * ((1 + 1 / 2 ^ 53) ^ 3 - 1) * (real n * ?p)"
    using b unfolding x1 x2 by (rule exI)
  have r2: "resolve_unit sample_round 1600 ''rai'' = Inr (1, '' (rai)'')"
    and r3: "int_mul_float sample_round 1 1 = 1"
    using rai r1 by blast+
  show ?thesis by (intro conjI) (rule run1 run2 o d w p ex r1 r2 r3)+
qed

text \<open>
  C6, as stated, fails in binary64: for a clip with six flooded cells of 1600 square
  metres, the total flooded area of the run in km2 is the product of 6 with the rounded
  quotient 1600 / 1000000, rounded: 0.009600000000000001. The run in m2 gives 9600, and
  9600 / 1000000 is 0.0096, the binary64 number below it; the two are not related by the
  factor 1000000 either as real numbers or as rounded quotients.
\<close>

theorem km2_area_is_not_m2_area_over_1e6:
  "calculate_flood_area_by_village sample_round seven_env sample_str ''flood.tif'' ''villages.shp''
     (Some [Fin (1/2), Fin 1]) ''km2'' =
     ([ReadFile ''villages.shp'', RasterOpen ''flood.tif'', RasterRead 1, MaskCall 0, RasterClose],
      Inr [[(''village_id'', PyInt 0), (''village_name'', PyStr ''Village_0''),
            (''total_area (km'' @ [CHR 0xB2] @ '')'', PyFloat (6456360425798343 / 2 ^ 59)),
            (''no_flood_area (km'' @ [CHR 0xB2] @ '')'', PyFloat (7378697629483821 / 2 ^ 62)),
            (''0-0.5 m (km'' @ [CHR 0xB2] @ '')'', PyFloat 0),
            (''0.5-1.0m (km'' @ [CHR 0xB2] @ '')'', PyFloat (5534023222112866 / 2 ^ 59)),
            (''>1.0 m (km'' @ [CHR 0xB2] @ '')'', PyFloat 0),
            (''total_flooded_area (km'' @ [CHR 0xB2] @ '')'', PyFloat (5534023222112866 / 2 ^ 59))]]) \<and>
   calculate_flood_area_by_village sample_round seven_env sample_str ''flood.tif'' ''villages.shp''
     (Some [Fin (1/2), Fin 1]) ''m2'' =
     ([ReadFile ''villages.shp'', RasterOpen ''flood.tif'', RasterRead 1, MaskCall 0, RasterClose],
      Inr [[(''village_id'', PyInt 0), (''village_name'', PyStr ''Village_0''),
            (''total_area (m'' @ [CHR 0xB2] @ '')'', PyFloat 11200),
            (''no_flood_area (m'' @ [CHR 0xB2] @ '')'', PyFloat 1600),
            (''0-0.5 m (m'' @ [CHR 0xB2] @ '')'', PyFloat 0),
            (''0.5-1.0m (m'' @ [CHR 0xB2] @ '')'', PyFloat 9600),
            (''>1.0 m (m'' @ [CHR 0xB2] @ '')'', PyFloat 0),
            (''total_flooded_area (m'' @ [CHR 0xB2] @ '')'', PyFloat 9600)]]) \<and>
   (5534023222112866 / 2 ^ 59 :: real) \<noteq> 9600 / 1000000 \<and>
   (5534023222112866 / 2 ^ 59 :: real) * 1000000 \<noteq> 9600 \<and>
   5534023222112866 / 2 ^ 59 \<noteq> sample_round (9600 / 1000000)"
  by (simp add: seven_run)

section \<open>Area conservation\<close>

lemma conservation_bound:
  fixes E :: real
  assumes "\<bar>a - A\<bar> \<le> E * x" "\<bar>b - B\<bar> \<le> E * y" "\<bar>t - T\<bar> \<le> E * z"
    "A + B = T" "x + y = z"
  shows "\<bar>a + b - t\<bar> \<le> 2 * E * z"
proof -
  have "E * x + E * y = E * z" using assms(5) by (simp add: distrib_left [symmetric])
  then show ?thesis using assms(1-4) by arith
qed

lemma flooded_bound:
  fixes E :: real
  assumes "\<bar>f - F\<bar> \<le> E * y" "\<bar>a - A\<bar> \<le> E * x" "\<bar>t - T\<bar> \<le> E * z"
    "F + A = T" "y + x = z"
  shows "\<bar>f - (t - a)\<bar> \<le> 2 * E * z"
proof -
  have "E * y + E * x = E * z" using assms(5) by (simp add: distrib_left [symmetric])
  then show ?thesis using assms(1-4) by arith
qed

text \<open>
  C2, as amended. For every polygon k of a run that returns a table, the areas the loop
  body computes from the classified clip are the rounded products of a cell count with
  the pixel area of the unit. The counts add up exactly: the count behind the total area
  is the number of cells of the clipped grid, the no-flood count plus the band counts
  (one per threshold and the one above the last threshold) is that number, and so is the
  flooded count plus the no-flood count. With a rounding of relative error at most \<open>u\<close>,
  the total area is within the relative error \<open>2 * u + u\<^sup>2\<close> of the number of cells times
  the pixel area, and the no-flood area plus the sum of the band areas differs from the
  total area, and the total flooded area from the total area minus the no-flood area, by
  at most \<open>2 * (2 * u + u\<^sup>2)\<close> times the number of cells times the pixel area; they need
  not be equal. When the labels of the bands differ from one another, the row of the
  polygon reports exactly these areas: the identifier, the name, the total area, the
  no-flood area, one area per band label in order and the total flooded area.
\<close>

theorem area_conservation:
  assumes "calculate_flood_area_by_village rnd e str_of rp vp (Some ts) unit = (tr, Inr table)"
    and "k < length table"
    and "read_file e vp = Inr villages" and "rasterio_open e rp = Inr src"
    and "mask src [geometry (villages ! k)] = Inr (band # others, mt)"
    and "resolve_unit rnd (pixel_area_m2_of rnd src) unit = Inr (pa, s)"
    and "rounds_within rnd u"
  shows "\<exists>g total no_flood bands flooded.
     classify_flood_depth (dtype src) band (Some ts) = Inr g \<and>
     total = int_mul_float rnd (np_sum (mask_where (\<lambda>c. 0 \<le> c) g)) pa \<and>
     no_flood = int_mul_float rnd (np_sum (mask_where (\<lambda>c. c = 0) g)) pa \<and>
     bands = map (\<lambda>i. int_mul_float rnd (np_sum (mask_where (\<lambda>c. c = i + 1) g)) pa) [0..<length ts + 1] \<and>
     flooded = int_mul_float rnd (np_sum (mask_where (\<lambda>c. 0 < c) g)) pa \<and>
     np_sum (mask_where (\<lambda>c. 0 \<le> c) g) = cell_count band \<and>
     np_sum (mask_where (\<lambda>c. c = 0) g)
       + sum_list (map (\<lambda>i. np_sum (mask_where (\<lambda>c. c = i + 1) g)) [0..<length ts + 1])
       = cell_count band \<and>
     np_sum (mask_where (\<lambda>c. 0 < c) g) + np_sum (mask_where (\<lambda>c. c = 0) g) = cell_count band \<and>
     \<bar>total - real (cell_count band) * pa\<bar> \<le> (2 * u + u\<^sup>2) * (real (cell_count band) * \<bar>pa\<bar>) \<and>
     \<bar>no_flood + sum_list bands - total\<bar> \<le> 2 * (2 * u + u\<^sup>2) * (real (cell_count band) * \<bar>pa\<bar>) \<and>
     \<bar>flooded - (total - no_flood)\<bar> \<le> 2 * (2 * u + u\<^sup>2) * (real (cell_count band) * \<bar>pa\<bar>) \<and>
     (distinct (band_labels str_of ts) \<longrightarrow>
        table ! k =
          [(''village_id'', series_get (villages ! k) ''ADM3_EN'' (PyInt (int k))),
           (''village_name'', series_get (villages ! k) ''ADM3_TH'' (PyStr (''Village_'' @ str_of_nat k))),
           (''total_area'' @ s, PyFloat total),
           (''no_flood_area'' @ s, PyFloat no_flood)]
          @ map2 (\<lambda>l x. (l @ s, PyFloat x)) (band_labels str_of ts) bands
          @ [(''total_flooded_area'' @ s, PyFloat flooded)])"
proof -
  from calculate_Inr [OF assms(1)] assms(3,4,6)
  have l: "length table = length villages"
    and rows: "\<forall>k < length villages. village_result rnd str_of src ts pa s k (villages ! k) = Inr (table ! k)"
    unfolding pixel_area_m2_of_def by auto
  have ok: "unit_suffix_ok s" using resolve_unit_Inr [OF assms(6)] by blast
  have r: "village_result rnd str_of src ts pa s k (villages ! k) = Inr (table ! k)"
    using rows assms(2) l by simp
  let ?pre = "[(''village_id'', series_get (villages ! k) ''ADM3_EN'' (PyInt (int k))),
               (''village_name'', series_get (villages ! k) ''ADM3_TH'' (PyStr (''Village_'' @ str_of_nat k)))]"
  from village_result_shape [OF ok r] assms(5)
  obtain g where c: "classify_flood_depth (dtype src) band (Some ts) = Inr g"
    and row: "table ! k = ?pre @ map (area_field rnd s pa) (count_fields str_of ts g)"
    by auto
  from classify_flood_depth_Inr [OF c]
  have sh: "same_shape g band" and rng: "\<forall>row \<in> set g. \<forall>v \<in> set row. v \<le> Suc (length ts)"
    by simp_all
  have cells: "cell_count g = cell_count band" by (rule cell_count_same_shape [OF sh])
  define E where "E = 2 * u + u\<^sup>2"
  define N where "N = cell_count band"
  define n0 where "n0 = category_count g 0"
  define S where "S = sum_list (map (\<lambda>j. category_count g (j + 1)) [0..<length ts + 1])"
  define nf where "nf = np_sum (mask_where (\<lambda>c. 0 < c) g)"
  define total where "total = int_mul_float rnd (np_sum (mask_where (\<lambda>c. 0 \<le> c) g)) pa"
  define no_flood where "no_flood = int_mul_float rnd (np_sum (mask_where (\<lambda>c. c = 0) g)) pa"
  define flooded where "flooded = int_mul_float rnd (np_sum (mask_where (\<lambda>c. 0 < c) g)) pa"
  define bands where
    "bands = map (\<lambda>i. int_mul_float rnd (np_sum (mask_where (\<lambda>c. c = i + 1) g)) pa) [0..<length ts + 1]"
  have all: "np_sum (mask_where (\<lambda>c. 0 \<le> c) g) = N"
    unfolding N_def cells [symmetric] by (rule np_sum_all)
  have tt: "total = int_mul_float rnd N pa" unfolding total_def all by (rule refl)
  have nn: "no_flood = int_mul_float rnd n0 pa"
    by (simp add: no_flood_def n0_def category_count_def)
  have ff: "flooded = int_mul_float rnd nf pa" by (simp add: flooded_def nf_def)
  have bb: "bands = map (\<lambda>j. int_mul_float rnd (category_count g (j + 1)) pa) [0..<length ts + 1]"
    by (simp add: bands_def category_count_def)
  have part: "n0 + S = N"
    unfolding n0_def S_def N_def cells [symmetric]
    using category_counts_partition [OF rng] by simp
  have "n0 \<le> cell_count g" unfolding n0_def by (rule category_count_le)
  then have fl: "nf + n0 = N"
    unfolding nf_def np_sum_positive n0_def N_def cells [symmetric] by simp
  have rp: "real n0 + real S = real N" using part by (simp flip: of_nat_add)
  have rf: "real nf + real n0 = real N" using fl by (simp flip: of_nat_add)
  have et: "\<bar>total - real N * pa\<bar> \<le> E * (real N * \<bar>pa\<bar>)"
    unfolding tt E_def by (rule int_mul_float_error [OF assms(7)])
  have en: "\<bar>no_flood - real n0 * pa\<bar> \<le> E * (real n0 * \<bar>pa\<bar>)"
    unfolding nn E_def by (rule int_mul_float_error [OF assms(7)])
  have ef: "\<bar>flooded - real nf * pa\<bar> \<le> E * (real nf * \<bar>pa\<bar>)"
    unfolding ff E_def by (rule int_mul_float_error [OF assms(7)])
  have eb: "\<bar>sum_list bands - real S * pa\<bar> \<le> E * (real S * \<bar>pa\<bar>)"
    unfolding bb S_def E_def by (rule sum_list_int_mul_float_error [OF assms(7)])
  have cons: "\<bar>no_flood + sum_list bands - total\<bar> \<le> 2 * E * (real N * \<bar>pa\<bar>)"
  proof (rule conservation_bound [OF en eb et])
    show "real n0 * pa + real S * pa = real N * pa"
      using rp by (simp add: distrib_right [symmetric])
    show "real n0 * \<bar>pa\<bar> + real S * \<bar>pa\<bar> = real N * \<bar>pa\<bar>"
      using rp by (simp add: distrib_right [symmetric])
  qed
  have flo: "\<bar>flooded - (total - no_flood)\<bar> \<le> 2 * E * (real N * \<bar>pa\<bar>)"
  proof (rule flooded_bound [OF ef en et])
    show "real nf * pa + real n0 * pa = real N * pa"
      using rf by (simp add: distrib_right [symmetric])
    show "real nf * \<bar>pa\<bar> + real n0 * \<bar>pa\<bar> = real N * \<bar>pa\<bar>"
      using rf by (simp add: distrib_right [symmetric])
  qed
  have c1: "np_sum (mask_where (\<lambda>c. c = 0) g)
       + sum_list (map (\<lambda>i. np_sum (mask_where (\<lambda>c. c = i + 1) g)) [0..<length ts + 1]) = N"
    using part by (simp add: n0_def S_def category_count_def)
  have c2: "np_sum (mask_where (\<lambda>c. 0 < c) g) + np_sum (mask_where (\<lambda>c. c = 0) g) = N"
    using fl by (simp add: nf_def n0_def category_count_def)
  have shape: "table ! k =
       [(''village_id'', series_get (villages ! k) ''ADM3_EN'' (PyInt (int k))),
        (''village_name'', series_get (villages ! k) ''ADM3_TH'' (PyStr (''Village_'' @ str_of_nat k))),
        (''total_area'' @ s, PyFloat total), (''no_flood_area'' @ s, PyFloat no_flood)]
       @ map2 (\<lambda>l x. (l @ s, PyFloat x)) (band_labels str_of ts) bands
       @ [(''total_flooded_area'' @ s, PyFloat flooded)]"
    if d: "distinct (band_labels str_of ts)"
  proof -
    have bs: "bands = map (\<lambda>j. int_mul_float rnd (category_count g (j + 1)) pa) [0..<length ts]
        @ [int_mul_float rnd (category_count g (length ts + 1)) pa]"
      by (simp add: bb)
    have z: "map2 (\<lambda>l x. (l @ s, PyFloat x)) (band_labels str_of ts) bands =
        map (\<lambda>j. (band_label str_of ts j @ s, PyFloat (int_mul_float rnd (category_count g (j + 1)) pa))) [0..<length ts]
        @ [(last_label str_of ts @ s, PyFloat (int_mul_float rnd (category_count g (length ts + 1)) pa))]"
      unfolding band_labels_def bs by (rule map2_snoc)
    have t1: "int_mul_float rnd (cell_count g) pa = total"
      unfolding tt N_def cells by (rule refl)
    have f1: "int_mul_float rnd (cell_count g - np_sum (mask_where (\<lambda>c. c = 0) g)) pa = flooded"
      unfolding flooded_def np_sum_positive category_count_def by (rule refl)
    show ?thesis
      unfolding row z count_fields_distinct [OF d]
      by (simp add: area_field_def t1 f1 no_flood_def category_count_def comp_def)
  qed
  have et': "\<bar>total - real N * pa\<bar> \<le> (2 * u + u\<^sup>2) * (real N * \<bar>pa\<bar>)"
    using et unfolding E_def .
  have cons': "\<bar>no_flood + sum_list bands - total\<bar> \<le> 2 * (2 * u + u\<^sup>2) * (real N * \<bar>pa\<bar>)"
    using cons unfolding E_def .
  have flo': "\<bar>flooded - (total - no_flood)\<bar> \<le> 2 * (2 * u + u\<^sup>2) * (real N * \<bar>pa\<bar>)"
    using flo unfolding E_def .
  show ?thesis
    unfolding N_def [symmetric]
    by (intro exI [of _ g] exI [of _ total] exI [of _ no_flood] exI [of _ bands] exI [of _ flooded]
        conjI c total_def no_flood_def bands_def flooded_def all c1 c2 et' cons' flo' impI shape)
qed


theorem area_conservation_witness:
  "calculate_flood_area_by_village sample_round seven_env sample_str ''flood.tif'' ''villages.shp''
     (Some [Fin (1/2), Fin 1]) ''km2'' =
     ([ReadFile ''villages.shp'', RasterOpen ''flood.tif'', RasterRead 1, MaskCall 0, RasterClose],
      Inr [[(''village_id'', PyInt 0), (''village_name'', PyStr ''Village_0''),
            (''total_area (km'' @ [CHR 0xB2] @ '')'', PyFloat (6456360425798343 / 2 ^ 59)),
            (''no_flood_area (km'' @ [CHR 0xB2] @ '')'', PyFloat (7378697629483821 / 2 ^ 62)),
            (''0-0.5 m (km'' @ [CHR 0xB2] @ '')'', PyFloat 0),
            (''0.5-1.0m (km'' @ [CHR 0xB2] @ '')'', PyFloat (5534023222112866 / 2 ^ 59)),
            (''>1.0 m (km'' @ [CHR 0xB2] @ '')'', PyFloat 0),
            (''total_flooded_area (km'' @ [CHR 0xB2] @ '')'', PyFloat (5534023222112866 / 2 ^ 59))]]) \<and>
   (0::nat) < 1 \<and>
   read_file seven_env ''villages.shp'' = Inr [\<lparr>geometry = 0, attributes = Map.empty\<rparr>] \<and>
   rasterio_open seven_env ''flood.tif'' = Inr seven_raster \<and>
   mask seven_raster [geometry ([\<lparr>geometry = 0, attributes = Map.empty\<rparr>] ! 0)]
     = Inr (seven_cells # [], sample_transform) \<and>
   resolve_unit sample_round (pixel_area_m2_of sample_round seven_raster) ''km2''
     = Inr (7378697629483821 / 2 ^ 62, '' (km'' @ [CHR 0xB2] @ '')'') \<and>
   rounds_within sample_round (1 / 2 ^ 53) \<and>
   cell_count seven_cells = 7 \<and>
   (\<exists>total no_flood bands flooded.
      total = 6456360425798343 / 2 ^ 59 \<and> no_flood = 7378697629483821 / 2 ^ 62 \<and>
      bands = [0, 5534023222112866 / 2 ^ 59, 0] \<and> flooded = 5534023222112866 / 2 ^ 59 \<and>
      \<bar>no_flood + sum_list bands - total\<bar>
        \<le> 2 * (2 * (1 / 2 ^ 53) + (1 / 2 ^ 53)\<^sup>2) * (real (cell_count seven_cells) * \<bar>7378697629483821 / 2 ^ 62\<bar>) \<and>
      \<bar>flooded - (total - no_flood)\<bar>
        \<le> 2 * (2 * (1 / 2 ^ 53) + (1 / 2 ^ 53)\<^sup>2) * (real (cell_count seven_cells) * \<bar>7378697629483821 / 2 ^ 62\<bar>))"
proof -
  let ?table = "[[(''village_id'', PyInt 0), (''village_name'', PyStr ''Village_0''),
            (''total_area (km'' @ [CHR 0xB2] @ '')'', PyFloat (6456360425798343 / 2 ^ 59)),
            (''no_flood_area (km'' @ [CHR 0xB2] @ '')'', PyFloat (7378697629483821 / 2 ^ 62)),
            (''0-0.5 m (km'' @ [CHR 0xB2] @ '')'', PyFloat 0),
            (''0.5-1.0m (km'' @ [CHR 0xB2] @ '')'', PyFloat (5534023222112866 / 2 ^ 59)),
            (''>1.0 m (km'' @ [CHR 0xB2] @ '')'', PyFloat 0),
            (''total_flooded_area (km'' @ [CHR 0xB2] @ '')'', PyFloat (5534023222112866 / 2 ^ 59))]]"
  let ?vs = "[\<lparr>geometry = 0 :: nat, attributes = Map.empty\<rparr>]"
  let ?ts = "[Fin (1/2), Fin 1]"
  let ?pa = "7378697629483821 / 2 ^ 62 :: real"
  let ?u = "1 / 2 ^ 53 :: real"
  have run: "calculate_flood_area_by_village sample_round seven_env sample_str ''flood.tif'' ''villages.shp''
     (Some ?ts) ''km2'' =
     ([ReadFile ''villages.shp'', RasterOpen ''flood.tif'', RasterRead 1, MaskCall 0, RasterClose],
      Inr ?table)"
    by (simp add: seven_run)
  have k: "0 < length ?table" by simp
  have k1: "(0::nat) < 1" by simp
  have v: "read_file seven_env ''villages.shp'' = Inr ?vs"
    and o: "rasterio_open seven_env ''flood.tif'' = Inr seven_raster"
    by (simp_all add: seven_env_def)
  have m: "mask seven_raster [geometry (?vs ! 0)] = Inr (seven_cells # [], sample_transform)"
    by (simp add: seven_raster_def seven_mask_def)
  have u: "resolve_unit sample_round (pixel_area_m2_of sample_round seven_raster) ''km2''
     = Inr (?pa, '' (km'' @ [CHR 0xB2] @ '')'')"
    by (simp add: resolve_unit_def pixel_area_m2_of_def seven_raster_def sample_transform_def
        sample_round_def)
  have w: "rounds_within sample_round ?u" by (rule sample_round_within)
  have cc: "cell_count seven_cells = 7" by (simp add: cell_count_def seven_cells_def)
  from area_conservation [OF run k v o m u w]
  obtain g total no_flood bands flooded where
    c: "classify_flood_depth (dtype seven_raster) seven_cells (Some ?ts) = Inr g"
    and t: "total = int_mul_float sample_round (np_sum (mask_where (\<lambda>c. 0 \<le> c) g)) ?pa"
    and n: "no_flood = int_mul_float sample_round (np_sum (mask_where (\<lambda>c. c = 0) g)) ?pa"
    and b: "bands = map (\<lambda>i. int_mul_float sample_round (np_sum (mask_where (\<lambda>c. c = i + 1) g)) ?pa)
              [0..<length ?ts + 1]"
    and f: "flooded = int_mul_float sample_round (np_sum (mask_where (\<lambda>c. 0 < c) g)) ?pa"
    and cons: "\<bar>no_flood + sum_list bands - total\<bar>
        \<le> 2 * (2 * ?u + ?u\<^sup>2) * (real (cell_count seven_cells) * \<bar>?pa\<bar>)"
    and flo: "\<bar>flooded - (total - no_flood)\<bar>
        \<le> 2 * (2 * ?u + ?u\<^sup>2) * (real (cell_count seven_cells) * \<bar>?pa\<bar>)"
    by blast
  have "classify_flood_depth (dtype seven_raster) seven_cells (Some ?ts) = Inr [[0, 2, 2, 2, 2, 2, 2]]"
    by (simp add: seven_raster_def seven_cells_def classify_flood_depth_def zeros_like_def
        mask_where_def assign_where_def fl_gt_def)
  then have g: "g = [[0, 2, 2, 2, 2, 2, 2]]" using c by simp
  have t': "total = 6456360425798343 / 2 ^ 59"
    unfolding t g by (simp add: np_sum_def mask_where_def int_mul_float_def sample_round_def)
  have n': "no_flood = 7378697629483821 / 2 ^ 62"
    unfolding n g by (simp add: np_sum_def mask_where_def int_mul_float_def sample_round_def)
  have f': "flooded = 5534023222112866 / 2 ^ 59"
    unfolding f g by (simp add: np_sum_def mask_where_def int_mul_float_def sample_round_def)
  have "[0..<length ?ts + 1] = [0, 1, 2]" by (simp add: upt_rec)
  then have b': "bands = [0, 5534023222112866 / 2 ^ 59, 0]"
    unfolding b g by (simp add: np_sum_def mask_where_def int_mul_float_def sample_round_def)
  have ex: "\<exists>total no_flood bands flooded.
      total = 6456360425798343 / 2 ^ 59 \<and> no_flood = 7378697629483821 / 2 ^ 62 \<and>
      bands = [0, 5534023222112866 / 2 ^ 59, 0] \<and> flooded = 5534023222112866 / 2 ^ 59 \<and>
      \<bar>no_flood + sum_list bands - total\<bar>
        \<le> 2 * (2 * ?u + ?u\<^sup>2) * (real (cell_count seven_cells) * \<bar>?pa\<bar>) \<and>
      \<bar>flooded - (total - no_flood)\<bar>
        \<le> 2 * (2 * ?u + ?u\<^sup>2) * (real (cell_count seven_cells) * \<bar>?pa\<bar>)"
    by (intro exI [of _ total] exI [of _ no_flood] exI [of _ bands] exI [of _ flooded]
        conjI t' n' b' f' cons flo)
  show ?thesis by (intro conjI) (rule run k1 v o m u w cc ex)+
qed

text \<open>
  C2, as stated, fails in binary64: for a clip of seven cells of 1600 square metres, one
  of depth 0 and six of depth 0.75, the run in km2 reports the no-flood area 0.0016, the
  band areas 0, 0.009600000000000001 and 0, the total flooded area 0.009600000000000001
  and the total area 0.0112. The no-flood area plus the band areas is not the total
  area, and the total area minus the no-flood area is not the total flooded area, whether
  the sum and the difference are taken in the real numbers or rounded to binary64
  (0.011200000000000002 and 0.0096).
\<close>

theorem rounded_areas_do_not_add_up:
  "calculate_flood_area_by_village sample_round seven_env sample_str ''flood.tif'' ''villages.shp''
     (Some [Fin (1/2), Fin 1]) ''km2'' =
     ([ReadFile ''villages.shp'', RasterOpen ''flood.tif'', RasterRead 1, MaskCall 0, RasterClose],
      Inr [[(''village_id'', PyInt 0), (''village_name'', PyStr ''Village_0''),
            (''total_area (km'' @ [CHR 0xB2] @ '')'', PyFloat (6456360425798343 / 2 ^ 59)),
            (''no_flood_area (km'' @ [CHR 0xB2] @ '')'', PyFloat (7378697629483821 / 2 ^ 62)),
            (''0-0.5 m (km'' @ [CHR 0xB2] @ '')'', PyFloat 0),
            (''0.5-1.0m (km'' @ [CHR 0xB2] @ '')'', PyFloat (5534023222112866 / 2 ^ 59)),
            (''>1.0 m (km'' @ [CHR 0xB2] @ '')'', PyFloat 0),
            (''total_flooded_area (km'' @ [CHR 0xB2] @ '')'', PyFloat (5534023222112866 / 2 ^ 59))]]) \<and>
   (7378697629483821 / 2 ^ 62 + sum_list [0, 5534023222112866 / 2 ^ 59, 0] :: real)
     \<noteq> 6456360425798343 / 2 ^ 59 \<and>
   (6456360425798343 / 2 ^ 59 - 7378697629483821 / 2 ^ 62 :: real) \<noteq> 5534023222112866 / 2 ^ 59 \<and>
   sample_round (7378697629483821 / 2 ^ 62 + 5534023222112866 / 2 ^ 59) \<noteq> 6456360425798343 / 2 ^ 59 \<and>
   sample_round (6456360425798343 / 2 ^ 59 - 7378697629483821 / 2 ^ 62) \<noteq> 5534023222112866 / 2 ^ 59"
  by (simp add: seven_run)

end
